theory Spec2Isabelle
  imports Complex_Main
begin

section \<open>Characters and strings\<close>

text \<open>
  The parser of \<^verbatim>\<open>hhparser.py\<close> works on Python strings.  A line is modelled as a
  \<^typ>\<open>string\<close>, each \<^typ>\<open>char\<close> standing for the code point of the same number, so the
  model covers the lines whose code points are below 256.  The character classes of the
  \<^verbatim>\<open>re\<close> module and the string methods are written out for these code points.
\<close>

text \<open>
  Characters are compared by code point.  \<open>bits\<close> lists the bits of a character from
  the most significant one, so the order of code points is the lexicographic order of
  these lists; \<open>in_range lo hi c\<close> is the class \<^verbatim>\<open>[lo-hi]\<close>.
\<close>

definition bits :: "char \<Rightarrow> bool list" where
  "bits c = (case c of Char b0 b1 b2 b3 b4 b5 b6 b7 \<Rightarrow> [b7, b6, b5, b4, b3, b2, b1, b0])"

fun le_bits :: "bool list \<Rightarrow> bool list \<Rightarrow> bool" where
  "le_bits (x # xs) (y # ys) = (if x = y then le_bits xs ys else y)"
| "le_bits xs ys = True"

definition char_le :: "char \<Rightarrow> char \<Rightarrow> bool" where
  "char_le a b = le_bits (bits a) (bits b)"

definition in_range :: "char \<Rightarrow> char \<Rightarrow> char \<Rightarrow> bool" where
  "in_range lo hi c = (if char_le lo c then char_le c hi else False)"

definition newline :: char where
  "newline = CHR 0x0A"

text \<open>\<^verbatim>\<open>\d\<close>: the decimal digits.\<close>

definition is_digit :: "char \<Rightarrow> bool" where
  "is_digit c = in_range (CHR ''0'') (CHR ''9'') c"

text \<open>\<^verbatim>\<open>\s\<close> and \<^verbatim>\<open>str.isspace\<close>: tab to carriage return (9 to 13), the four
  separators 28 to 31, the space (32), NEL (133) and the no-break space (160).\<close>

definition is_space :: "char \<Rightarrow> bool" where
  "is_space c \<longleftrightarrow> in_range (CHR 0x09) (CHR 0x0D) c \<or> in_range (CHR 0x1C) (CHR 0x20) c
     \<or> c = CHR 0x85 \<or> c = CHR 0xA0"

text \<open>\<^verbatim>\<open>\w\<close>: the alphanumeric code points and the underscore.  Beyond ASCII these
  are 170, 178, 179, 181, 185, 186, 188 to 190, 192 to 214, 216 to 246 and 248 to 255.\<close>

definition is_word :: "char \<Rightarrow> bool" where
  "is_word c \<longleftrightarrow> is_digit c \<or> in_range (CHR ''A'') (CHR ''Z'') c \<or> c = CHR ''_''
     \<or> in_range (CHR ''a'') (CHR ''z'') c
     \<or> c \<in> set [CHR 0xAA, CHR 0xB2, CHR 0xB3, CHR 0xB5, CHR 0xB9, CHR 0xBA]
     \<or> in_range (CHR 0xBC) (CHR 0xBE) c \<or> in_range (CHR 0xC0) (CHR 0xD6) c
     \<or> in_range (CHR 0xD8) (CHR 0xF6) c \<or> in_range (CHR 0xF8) (CHR 0xFF) c"

text \<open>\<^verbatim>\<open>str.lower\<close> on one character: the capital letters (65 to 90, and 192 to 222
  without 215) move up by 32, which sets the bit of value 32.\<close>

definition is_upper :: "char \<Rightarrow> bool" where
  "is_upper c \<longleftrightarrow> in_range (CHR ''A'') (CHR ''Z'') c
     \<or> (in_range (CHR 0xC0) (CHR 0xDE) c \<and> c \<noteq> CHR 0xD7)"

definition lower :: "char \<Rightarrow> char" where
  "lower c = (if is_upper c
              then (case c of Char b0 b1 b2 b3 b4 b5 b6 b7 \<Rightarrow> Char b0 b1 b2 b3 b4 True b6 b7)
              else c)"

text \<open>\<^verbatim>\<open>str.upper\<close> on one character: the small letters (97 to 122, and 224 to 254
  without 247) move down by 32.  The three letters whose capital lies outside the
  modelled code points (181, 223 and 255) are left as they are; \<^verbatim>\<open>upper\<close> is only
  applied to text captured by alternatives of ASCII literals.\<close>

definition is_lower :: "char \<Rightarrow> bool" where
  "is_lower c \<longleftrightarrow> in_range (CHR ''a'') (CHR ''z'') c
     \<or> (in_range (CHR 0xE0) (CHR 0xFE) c \<and> c \<noteq> CHR 0xF7)"

definition upper :: "char \<Rightarrow> char" where
  "upper c = (if is_lower c
              then (case c of Char b0 b1 b2 b3 b4 b5 b6 b7 \<Rightarrow> Char b0 b1 b2 b3 b4 False b6 b7)
              else c)"

text \<open>\<^verbatim>\<open>str.strip()\<close>, \<^verbatim>\<open>str.rstrip('\n')\<close> and \<^verbatim>\<open>str.replace\<close> of one character.\<close>

definition rstrip_nl :: "string \<Rightarrow> string" where
  "rstrip_nl s = rev (dropWhile (\<lambda>c. c = newline) (rev s))"

definition strip :: "string \<Rightarrow> string" where
  "strip s = rev (dropWhile is_space (rev (dropWhile is_space s)))"

definition replace_char :: "char \<Rightarrow> char \<Rightarrow> string \<Rightarrow> string" where
  "replace_char a b s = map (\<lambda>c. if c = a then b else c) s"

text \<open>\<^verbatim>\<open>marker in line\<close>: the marker occurs as a substring.\<close>

fun starts_with :: "string \<Rightarrow> string \<Rightarrow> bool" where
  "starts_with [] s = True"
| "starts_with (a # l) [] = False"
| "starts_with (a # l) (c # cs) = (if c = a then starts_with l cs else False)"

fun contains :: "string \<Rightarrow> string \<Rightarrow> bool" where
  "contains marker [] = (marker = [])"
| "contains marker (c # cs) =
     (if starts_with marker (c # cs) then True else contains marker cs)"

section \<open>Regular expressions of the \<^verbatim>\<open>re\<close> module\<close>

text \<open>
  The patterns of the source are compiled with \<^verbatim>\<open>re.I\<close>.  They use literals, character
  classes, sequence, alternation, optional parts, greedy and lazy repetition of a single
  character class, named groups and the anchors \<^verbatim>\<open>^\<close> and \<^verbatim>\<open>$\<close>.  \<^verbatim>\<open>re\<close> is a
  backtracking matcher: the alternatives are tried in a fixed order and the first
  complete match is the result.  The model computes the list of all matches in that
  order, so its head is the match \<^verbatim>\<open>re\<close> returns.

  A matching state is the number of characters consumed so far, the rest of the subject
  and the groups captured so far (the newest first).
\<close>

datatype rx =
    Cls "char \<Rightarrow> bool"
  | Lit string
  | Seq rx rx
  | Alt rx rx
  | Opt rx
  | Star "char \<Rightarrow> bool"
  | Plus "char \<Rightarrow> bool"
  | PlusLazy "char \<Rightarrow> bool"
  | Grp string rx
  | Bol
  | Eol

type_synonym groups = "(string \<times> string) list"
type_synonym mstate = "nat \<times> string \<times> groups"

text \<open>Greedy repetition tries the longest run first, lazy repetition the shortest.\<close>

fun star_greedy :: "(char \<Rightarrow> bool) \<Rightarrow> nat \<Rightarrow> string \<Rightarrow> (nat \<times> string) list" where
  "star_greedy p n [] = [(n, [])]"
| "star_greedy p n (c # cs) = (if p c then star_greedy p (Suc n) cs else []) @ [(n, c # cs)]"

fun star_lazy :: "(char \<Rightarrow> bool) \<Rightarrow> nat \<Rightarrow> string \<Rightarrow> (nat \<times> string) list" where
  "star_lazy p n [] = [(n, [])]"
| "star_lazy p n (c # cs) = (n, c # cs) # (if p c then star_lazy p (Suc n) cs else [])"

text \<open>With \<^verbatim>\<open>re.I\<close> a literal matches in either case.\<close>

fun lit_matches :: "string \<Rightarrow> string \<Rightarrow> bool" where
  "lit_matches [] s = True"
| "lit_matches (a # l) [] = False"
| "lit_matches (a # l) (c # cs) = (if lower c = lower a then lit_matches l cs else False)"

fun rx_match :: "rx \<Rightarrow> mstate \<Rightarrow> mstate list" where
  "rx_match (Cls p) (n, s, g) =
     (case s of [] \<Rightarrow> [] | c # cs \<Rightarrow> if p c then [(Suc n, cs, g)] else [])"
| "rx_match (Lit l) (n, s, g) =
     (if lit_matches l s then [(n + length l, drop (length l) s, g)] else [])"
| "rx_match (Seq a b) st = concat (map (rx_match b) (rx_match a st))"
| "rx_match (Alt a b) st = rx_match a st @ rx_match b st"
| "rx_match (Opt a) st = rx_match a st @ [st]"
| "rx_match (Star p) (n, s, g) = map (\<lambda>(n', s'). (n', s', g)) (star_greedy p n s)"
| "rx_match (Plus p) (n, s, g) =
     (case s of [] \<Rightarrow> []
      | c # cs \<Rightarrow> if p c then map (\<lambda>(n', s'). (n', s', g)) (star_greedy p (Suc n) cs) else [])"
| "rx_match (PlusLazy p) (n, s, g) =
     (case s of [] \<Rightarrow> []
      | c # cs \<Rightarrow> if p c then map (\<lambda>(n', s'). (n', s', g)) (star_lazy p (Suc n) cs) else [])"
| "rx_match (Grp name a) (n, s, g) =
     map (\<lambda>(n', s', g'). (n', s', (name, take (n' - n) s) # g')) (rx_match a (n, s, g))"
| "rx_match Bol (n, s, g) = (if n = 0 then [(n, s, g)] else [])"
| "rx_match Eol (n, s, g) = (if s = [] \<or> s = [newline] then [(n, s, g)] else [])"

text \<open>\<^verbatim>\<open>pattern.match(s)\<close> matches at the start of the subject;
  \<^verbatim>\<open>pattern.search(s)\<close> tries every start position from the left.  Both return the
  groups of the first match, or \<open>None\<close>.\<close>

definition re_match :: "rx \<Rightarrow> string \<Rightarrow> groups option" where
  "re_match r s = (case rx_match r (0, s, []) of [] \<Rightarrow> None | (n, s', g) # _ \<Rightarrow> Some g)"

fun search_from :: "rx \<Rightarrow> nat \<Rightarrow> string \<Rightarrow> groups option" where
  "search_from r n s =
     (case rx_match r (n, s, []) of
        (n', s', g) # _ \<Rightarrow> Some g
      | [] \<Rightarrow> (case s of [] \<Rightarrow> None | c # cs \<Rightarrow> search_from r (Suc n) cs))"

definition re_search :: "rx \<Rightarrow> string \<Rightarrow> groups option" where
  "re_search r s = search_from r 0 s"

text \<open>\<^verbatim>\<open>m.group(name)\<close>: the text of the group, \<open>None\<close> for a group that took no part
  in the match.\<close>

definition group :: "groups \<Rightarrow> string \<Rightarrow> string option" where
  "group g name = map_of g name"

fun seqs :: "rx list \<Rightarrow> rx" where
  "seqs [] = Lit []"
| "seqs [r] = r"
| "seqs (r # rs) = Seq r (seqs rs)"

fun alts :: "rx list \<Rightarrow> rx" where
  "alts [] = Cls (\<lambda>c. False)"
| "alts [r] = r"
| "alts (r # rs) = Alt r (alts rs)"

definition not_newline :: "char \<Rightarrow> bool" where
  "not_newline c \<longleftrightarrow> c \<noteq> newline"

definition word_or_hyphen :: "char \<Rightarrow> bool" where
  "word_or_hyphen c \<longleftrightarrow> is_word c \<or> c = CHR ''-''"

text \<open>\<^verbatim>\<open>RE_HAND_HEADER = ^\s*Hand\s*#\s*(?P<hand_id>[\w\-]+).*$\<close>\<close>

definition RE_HAND_HEADER :: rx where
  "RE_HAND_HEADER = seqs [Bol, Star is_space, Lit ''Hand'', Star is_space, Lit ''#'',
     Star is_space, Grp ''hand_id'' (Plus word_or_hyphen), Star not_newline, Eol]"

section \<open>The hand segmenter\<close>

text \<open>
  \<^verbatim>\<open>split_into_hands\<close> keeps an accumulator \<open>current\<close>; a header line closes a
  non-empty accumulator, and every line is appended with its trailing newlines removed.
  The generator's yields are the list returned.
\<close>

fun split_loop :: "string list \<Rightarrow> string list \<Rightarrow> string list list" where
  "split_loop current [] = (if current \<noteq> [] then [current] else [])"
| "split_loop current (line # lines) =
     (if re_match RE_HAND_HEADER line \<noteq> None \<and> current \<noteq> []
      then current # split_loop [rstrip_nl line] lines
      else split_loop (current @ [rstrip_nl line]) lines)"

definition split_into_hands :: "string list \<Rightarrow> string list list" where
  "split_into_hands lines = split_loop [] lines"

section \<open>Numbers\<close>

text \<open>
  A Python float is represented by the exact decimal value that \<^verbatim>\<open>float()\<close> rounds to
  the nearest double, or by one of the special values.  \<^verbatim>\<open>float_of_string\<close> follows the
  grammar \<^verbatim>\<open>float()\<close> accepts: surrounding white space, single underscores between
  digits, a sign, then \<^verbatim>\<open>inf\<close>, \<^verbatim>\<open>infinity\<close>, \<^verbatim>\<open>nan\<close> or a decimal number with
  an optional exponent.  \<open>None\<close> stands for the \<^verbatim>\<open>ValueError\<close>.
\<close>

datatype pyfloat = Finite rat | Infinity bool | NaN

fun negate :: "pyfloat \<Rightarrow> pyfloat" where
  "negate (Finite r) = Finite (- r)"
| "negate (Infinity neg) = Infinity (\<not> neg)"
| "negate NaN = NaN"

text \<open>The value of a digit is its place in \<^verbatim>\<open>0123456789\<close>.\<close>

definition digit_val :: "char \<Rightarrow> nat" where
  "digit_val c = length (takeWhile (\<lambda>d. d \<noteq> c) ''0123456789'')"

definition nat_of_digits :: "string \<Rightarrow> nat" where
  "nat_of_digits ds = foldl (\<lambda>a c. 10 * a + digit_val c) 0 ds"

text \<open>The white space \<^verbatim>\<open>float()\<close> strips: the ASCII white space, NEL and the no-break
  space.\<close>

definition is_float_space :: "char \<Rightarrow> bool" where
  "is_float_space c \<longleftrightarrow> in_range (CHR 0x09) (CHR 0x0D) c \<or> c = CHR 0x20 \<or> c = CHR 0x85
     \<or> c = CHR 0xA0"

text \<open>An underscore is allowed only between two digits; \<open>prev\<close> tells whether the
  previous character was a digit.\<close>

fun del_underscores :: "bool \<Rightarrow> string \<Rightarrow> string option" where
  "del_underscores prev [] = Some []"
| "del_underscores prev (c # cs) =
     (if c = CHR ''_''
      then (if prev \<and> (case cs of [] \<Rightarrow> False | d # _ \<Rightarrow> is_digit d)
            then del_underscores False cs else None)
      else map_option ((#) c) (del_underscores (is_digit c) cs))"

definition parse_exponent :: "rat \<Rightarrow> string \<Rightarrow> rat option" where
  "parse_exponent mant es =
     (let (neg, ds) = (case es of [] \<Rightarrow> (False, [])
                       | c # cs \<Rightarrow> if c = CHR ''-'' then (True, cs)
                                 else if c = CHR ''+'' then (False, cs) else (False, es))
      in if ds \<noteq> [] \<and> list_all is_digit ds
         then Some (if neg then mant / 10 ^ nat_of_digits ds else mant * 10 ^ nat_of_digits ds)
         else None)"

definition parse_number :: "string \<Rightarrow> rat option" where
  "parse_number s =
     (let ip = takeWhile is_digit s; r1 = dropWhile is_digit s;
          (fp, r2) = (case r1 of [] \<Rightarrow> ([], [])
                      | c # cs \<Rightarrow> if c = CHR ''.''
                                then (takeWhile is_digit cs, dropWhile is_digit cs) else ([], r1))
      in if ip = [] \<and> fp = [] then None
         else (let mant = of_nat (nat_of_digits (ip @ fp)) / 10 ^ length fp
               in case r2 of [] \<Rightarrow> Some mant
                  | e # es \<Rightarrow> if e = CHR ''e'' \<or> e = CHR ''E'' then parse_exponent mant es else None))"

definition parse_unsigned :: "string \<Rightarrow> pyfloat option" where
  "parse_unsigned s =
     (if map lower s = ''inf'' \<or> map lower s = ''infinity'' then Some (Infinity False)
      else if map lower s = ''nan'' then Some NaN
      else map_option Finite (parse_number s))"

definition float_of_string :: "string \<Rightarrow> pyfloat option" where
  "float_of_string s =
     (case del_underscores False
             (rev (dropWhile is_float_space (rev (dropWhile is_float_space s)))) of
        None \<Rightarrow> None
      | Some [] \<Rightarrow> None
      | Some (c # cs) \<Rightarrow>
          if c = CHR ''-'' then map_option negate (parse_unsigned cs)
          else if c = CHR ''+'' then parse_unsigned cs
          else parse_unsigned (c # cs))"

text \<open>
  \<^verbatim>\<open>to_float_safe\<close>: replace the comma by a dot and convert; any exception gives
  \<^verbatim>\<open>None\<close>.  The argument can be \<^verbatim>\<open>None\<close> (a group that did not take part in the
  match): \<^verbatim>\<open>val.replace\<close> then raises inside the \<^verbatim>\<open>try\<close>, and the result is
  \<^verbatim>\<open>None\<close> as well.
\<close>

definition to_float_safe :: "string option \<Rightarrow> pyfloat option" where
  "to_float_safe val =
     (case val of None \<Rightarrow> None
      | Some v \<Rightarrow> float_of_string (replace_char (CHR '','') (CHR ''.'') v))"

text \<open>
  \<^verbatim>\<open>normalize_currency_symbol\<close>.  Of the symbol table only the dollar sign lies among
  the modelled code points.
\<close>

definition normalize_currency_symbol :: "string option \<Rightarrow> string" where
  "normalize_currency_symbol symb =
     (case symb of None \<Rightarrow> []
      | Some s \<Rightarrow> if s = [] then []
                  else (let t = strip s in if t = ''$'' then ''USD'' else map upper t))"

text \<open>The exceptions that can arise inside \<^verbatim>\<open>parse_hand\<close> and \<^verbatim>\<open>process_input\<close>.\<close>

datatype py_error = ValueError | TypeError | AttributeError

text \<open>\<^verbatim>\<open>int()\<close> on a run of decimal digits; the interpreter refuses more than 4300
  digits.\<close>

definition py_int :: "string option \<Rightarrow> py_error + int" where
  "py_int v =
     (case v of None \<Rightarrow> Inl TypeError
      | Some ds \<Rightarrow> if 4300 < length ds then Inl ValueError else Inr (int (nat_of_digits ds)))"

text \<open>Calling a string method on the text of a group raises when the group is
  \<^verbatim>\<open>None\<close>.\<close>

definition req :: "string option \<Rightarrow> py_error + string" where
  "req v = (case v of None \<Rightarrow> Inl AttributeError | Some s \<Rightarrow> Inr s)"

definition then_do :: "py_error + 'a \<Rightarrow> ('a \<Rightarrow> py_error + 'b) \<Rightarrow> py_error + 'b" where
  "then_do m f = (case m of Inl e \<Rightarrow> Inl e | Inr x \<Rightarrow> f x)"

section \<open>The patterns\<close>

definition digit_or_dot :: "char \<Rightarrow> bool" where
  "digit_or_dot c \<longleftrightarrow> is_digit c \<or> c = CHR ''.''"

definition is_rank :: "char \<Rightarrow> bool" where
  "is_rank c \<longleftrightarrow> lower c \<in> set ''23456789tjqka''"

definition is_suit :: "char \<Rightarrow> bool" where
  "is_suit c \<longleftrightarrow> lower c \<in> set ''cdhs''"

definition is_star :: "char \<Rightarrow> bool" where
  "is_star c \<longleftrightarrow> c = CHR ''*''"

text \<open>\<^verbatim>\<open>[2-9TJQKA][cdhs]\<close>\<close>

definition CARD :: rx where
  "CARD = Seq (Cls is_rank) (Cls is_suit)"

text \<open>\<^verbatim>\<open>RE_LIMIT = (?P<limit>NL|PL|FL)\s*(?P<game>Hold\'?em|Omaha|Short\s*Deck).*\((?P<sb>[\d\.]+)/(?P<bb>[\d\.]+)\s*(?P<cur>USD|EUR|RUB|CNY|...|\$|...)?\)\<close>
  (the two currency signs beyond code point 255 cannot occur in a modelled line).\<close>

definition RE_LIMIT :: rx where
  "RE_LIMIT = seqs [Grp ''limit'' (alts [Lit ''NL'', Lit ''PL'', Lit ''FL'']), Star is_space,
     Grp ''game'' (alts [seqs [Lit ''Hold'', Opt (Lit [CHR 0x27]), Lit ''em''], Lit ''Omaha'',
                         seqs [Lit ''Short'', Star is_space, Lit ''Deck'']]),
     Star not_newline, Lit ''('', Grp ''sb'' (Plus digit_or_dot), Lit ''/'',
     Grp ''bb'' (Plus digit_or_dot), Star is_space,
     Opt (Grp ''cur'' (alts [Lit ''USD'', Lit ''EUR'', Lit ''RUB'', Lit ''CNY'', Lit ''$''])),
     Lit '')'']"

text \<open>\<^verbatim>\<open>RE_SEAT = ^Seat\s+(?P<seat>\d+):\s+(?P<name>.+?)\s+\((?P<stack>[\d\.]+)\)\<close>\<close>

definition RE_SEAT :: rx where
  "RE_SEAT = seqs [Bol, Lit ''Seat'', Plus is_space, Grp ''seat'' (Plus is_digit), Lit '':'',
     Plus is_space, Grp ''name'' (PlusLazy not_newline), Plus is_space, Lit ''('',
     Grp ''stack'' (Plus digit_or_dot), Lit '')'']"

text \<open>\<^verbatim>\<open>RE_BUTTON = (Button|Dealer).*(seat|at)\s+(?P<btn>\d+)\<close>\<close>

definition RE_BUTTON :: rx where
  "RE_BUTTON = seqs [alts [Lit ''Button'', Lit ''Dealer''], Star not_newline,
     alts [Lit ''seat'', Lit ''at''], Plus is_space, Grp ''btn'' (Plus is_digit)]"

text \<open>\<^verbatim>\<open>RE_ACTION = ^(?P<player>.+?):\s+(?P<verb>bets|checks|calls|folds|raises\s+to|all-?in|posts.*|straddle)\s*(?P<amt>[\d\.]+)?\<close>\<close>

definition RE_ACTION :: rx where
  "RE_ACTION = seqs [Bol, Grp ''player'' (PlusLazy not_newline), Lit '':'', Plus is_space,
     Grp ''verb'' (alts [Lit ''bets'', Lit ''checks'', Lit ''calls'', Lit ''folds'',
                         seqs [Lit ''raises'', Plus is_space, Lit ''to''],
                         seqs [Lit ''all'', Opt (Lit ''-''), Lit ''in''],
                         seqs [Lit ''posts'', Star not_newline], Lit ''straddle'']),
     Star is_space, Opt (Grp ''amt'' (Plus digit_or_dot))]"

text \<open>\<^verbatim>\<open>RE_RETURN = Uncalled\s+bet\s+of\s+(?P<amt>[\d\.]+)\s+returned\s+to\s+(?P<player>.+)\<close>\<close>

definition RE_RETURN :: rx where
  "RE_RETURN = seqs [Lit ''Uncalled'', Plus is_space, Lit ''bet'', Plus is_space, Lit ''of'',
     Plus is_space, Grp ''amt'' (Plus digit_or_dot), Plus is_space, Lit ''returned'',
     Plus is_space, Lit ''to'', Plus is_space, Grp ''player'' (Plus not_newline)]"

text \<open>\<^verbatim>\<open>RE_FLOP = ^\*+\s*FLOP\s*\*+\s*\[(?P<flop>CARD\s+CARD\s+CARD)\]\<close>\<close>

definition RE_FLOP :: rx where
  "RE_FLOP = seqs [Bol, Plus is_star, Star is_space, Lit ''FLOP'', Star is_space, Plus is_star,
     Star is_space, Lit ''['',
     Grp ''flop'' (seqs [CARD, Plus is_space, CARD, Plus is_space, CARD]), Lit '']'']"

text \<open>\<^verbatim>\<open>RE_TURN = ^\*+\s*TURN\s*\*+.*\[(?P<turn>CARD)\]\<close>\<close>

definition RE_TURN :: rx where
  "RE_TURN = seqs [Bol, Plus is_star, Star is_space, Lit ''TURN'', Star is_space, Plus is_star,
     Star not_newline, Lit ''['', Grp ''turn'' CARD, Lit '']'']"

text \<open>\<^verbatim>\<open>RE_RIVER = ^\*+\s*RIVER\s*\*+.*\[(?P<river>CARD)\]\<close>\<close>

definition RE_RIVER :: rx where
  "RE_RIVER = seqs [Bol, Plus is_star, Star is_space, Lit ''RIVER'', Star is_space, Plus is_star,
     Star not_newline, Lit ''['', Grp ''river'' CARD, Lit '']'']"

text \<open>\<^verbatim>\<open>RE_SUMMARY_POT = Total\s+pot\s+\(?(?P<pot>[\d\.]+)\)?\s*\|\s*Rake\s+(?P<rake>[\d\.]+)\<close>\<close>

definition RE_SUMMARY_POT :: rx where
  "RE_SUMMARY_POT = seqs [Lit ''Total'', Plus is_space, Lit ''pot'', Plus is_space,
     Opt (Lit ''(''), Grp ''pot'' (Plus digit_or_dot), Opt (Lit '')''), Star is_space, Lit ''|'',
     Star is_space, Lit ''Rake'', Plus is_space, Grp ''rake'' (Plus digit_or_dot)]"

text \<open>\<^verbatim>\<open>RE_COLLECTED = ^(?P<player>.+)\s+collected\s+(?P<amt>[\d\.]+)\<close>\<close>

definition RE_COLLECTED :: rx where
  "RE_COLLECTED = seqs [Bol, Grp ''player'' (Plus not_newline), Plus is_space, Lit ''collected'',
     Plus is_space, Grp ''amt'' (Plus digit_or_dot)]"

definition STREET_MARKERS :: "(string \<times> string) list" where
  "STREET_MARKERS = [(''*** HOLE CARDS ***'', ''preflop''), (''*** FLOP ***'', ''flop''),
     (''*** TURN ***'', ''turn''), (''*** RIVER ***'', ''river'')]"

section \<open>The records\<close>

text \<open>
  The dictionaries \<^verbatim>\<open>hand\<close> and \<^verbatim>\<open>act\<close> have fixed keys and are records here; a
  value that can be \<^verbatim>\<open>None\<close> is an option.  \<^verbatim>\<open>winner_json\<close> holds the list that the
  source serialises with \<^verbatim>\<open>json.dumps\<close>; the empty list stands for the initial
  \<^verbatim>\<open>'[]'\<close>.
\<close>

record seat_record =
  seat_no :: int
  seat_name :: string
  seat_stack :: "pyfloat option"

record winner_record =
  w_player :: string
  w_amount :: "pyfloat option"

record hand_record =
  hand_id :: "string option"
  site :: string
  game :: "string option"
  limit_type :: "string option"
  stakes_sb :: "pyfloat option"
  stakes_bb :: "pyfloat option"
  currency :: "string option"
  players :: "int option"
  table_name :: "string option"
  table_size :: "int option"
  btn_seat :: "int option"
  board :: string
  pot_total :: "pyfloat option"
  rake :: "pyfloat option"
  winner_json :: "winner_record list"
  parse_warnings :: string

record action_record =
  act_hand_id :: "string option"
  act_street :: string
  act_player :: string
  act_action :: string
  act_amount :: "pyfloat option"

definition initial_hand :: hand_record where
  "initial_hand = \<lparr>hand_id = None, site = ''pokerok'', game = None, limit_type = None,
     stakes_sb = None, stakes_bb = None, currency = None, players = None, table_name = None,
     table_size = None, btn_seat = None, board = [], pot_total = None, rake = None,
     winner_json = [], parse_warnings = []\<rparr>"

section \<open>Parsing one hand\<close>

text \<open>Step 1: the first line matching the header gives \<^verbatim>\<open>hand_id\<close>.\<close>

fun find_hand_id :: "string list \<Rightarrow> string option" where
  "find_hand_id [] = None"
| "find_hand_id (line # lines) =
     (case re_match RE_HAND_HEADER line of
        Some m \<Rightarrow> group m ''hand_id''
      | None \<Rightarrow> find_hand_id lines)"

text \<open>Step 2: the first line where \<^verbatim>\<open>RE_LIMIT\<close> is found gives limit, game, stakes and
  currency.\<close>

fun parse_limit :: "hand_record \<Rightarrow> string list \<Rightarrow> py_error + hand_record" where
  "parse_limit hand [] = Inr hand"
| "parse_limit hand (line # lines) =
     (case re_search RE_LIMIT line of
        Some m \<Rightarrow>
          then_do (req (group m ''limit'')) (\<lambda>lim.
          then_do (req (group m ''game'')) (\<lambda>gm.
            Inr (hand\<lparr>limit_type := Some (map upper lim),
                       game := Some (filter (\<lambda>c. c \<noteq> CHR 0x27) (map lower gm)),
                       stakes_sb := to_float_safe (group m ''sb''),
                       stakes_bb := to_float_safe (group m ''bb''),
                       currency := Some (normalize_currency_symbol (group m ''cur''))\<rparr>)))
      | None \<Rightarrow> parse_limit hand lines)"

text \<open>Step 3: every seat line adds a player; the first button line gives the button.\<close>

fun parse_seats :: "seat_record list \<Rightarrow> string list \<Rightarrow> py_error + seat_record list" where
  "parse_seats seats [] = Inr seats"
| "parse_seats seats (line # lines) =
     (case re_match RE_SEAT line of
        Some m \<Rightarrow>
          then_do (py_int (group m ''seat'')) (\<lambda>n.
          then_do (req (group m ''name'')) (\<lambda>nm.
            parse_seats (seats @ [\<lparr>seat_no = n, seat_name = strip nm,
                                    seat_stack = to_float_safe (group m ''stack'')\<rparr>]) lines))
      | None \<Rightarrow> parse_seats seats lines)"

fun parse_button :: "hand_record \<Rightarrow> string list \<Rightarrow> py_error + hand_record" where
  "parse_button hand [] = Inr hand"
| "parse_button hand (line # lines) =
     (case re_search RE_BUTTON line of
        Some m \<Rightarrow> then_do (py_int (group m ''btn'')) (\<lambda>b. Inr (hand\<lparr>btn_seat := Some b\<rparr>))
      | None \<Rightarrow> parse_button hand lines)"

text \<open>Step 4: one pass over the lines.  The first street marker contained in the line
  sets the street; then the line is matched against \<^verbatim>\<open>RE_ACTION\<close> and against
  \<^verbatim>\<open>RE_RETURN\<close>, and each match appends one record.  The amount of a returned bet is
  \<^verbatim>\<open>-to_float_safe(amt) if amt else None\<close>: negating \<^verbatim>\<open>None\<close> raises
  \<^verbatim>\<open>TypeError\<close>.\<close>

definition marker_street :: "string \<Rightarrow> string \<Rightarrow> string" where
  "marker_street street line =
     (case find (\<lambda>(marker, sname). contains marker line) STREET_MARKERS of
        Some (marker, sname) \<Rightarrow> sname
      | None \<Rightarrow> street)"

definition action_of_line :: "string option \<Rightarrow> string \<Rightarrow> string \<Rightarrow> py_error + action_record list" where
  "action_of_line hid street line =
     (case re_match RE_ACTION line of
        Some ma \<Rightarrow>
          then_do (req (group ma ''player'')) (\<lambda>pl.
          then_do (req (group ma ''verb'')) (\<lambda>verb.
            Inr [\<lparr>act_hand_id = hid, act_street = street, act_player = strip pl,
                  act_action = strip (map lower verb),
                  act_amount = to_float_safe (group ma ''amt'')\<rparr>]))
      | None \<Rightarrow> Inr [])"

definition returned_amount :: "string option \<Rightarrow> py_error + pyfloat option" where
  "returned_amount amt =
     (if amt = None \<or> amt = Some [] then Inr None
      else (case to_float_safe amt of
              None \<Rightarrow> Inl TypeError
            | Some v \<Rightarrow> Inr (Some (negate v))))"

definition return_of_line :: "string option \<Rightarrow> string \<Rightarrow> string \<Rightarrow> py_error + action_record list" where
  "return_of_line hid street line =
     (case re_match RE_RETURN line of
        Some mr \<Rightarrow>
          then_do (req (group mr ''player'')) (\<lambda>pl.
          then_do (returned_amount (group mr ''amt'')) (\<lambda>amount.
            Inr [\<lparr>act_hand_id = hid, act_street = street, act_player = strip pl,
                  act_action = ''return_uncalled'', act_amount = amount\<rparr>]))
      | None \<Rightarrow> Inr [])"

fun actions_loop :: "string option \<Rightarrow> string \<times> action_record list \<Rightarrow> string list
    \<Rightarrow> py_error + (string \<times> action_record list)" where
  "actions_loop hid (street, actions) [] = Inr (street, actions)"
| "actions_loop hid (street, actions) (line # lines) =
     (let street' = marker_street street line in
      then_do (action_of_line hid street' line) (\<lambda>a1.
      then_do (return_of_line hid street' line) (\<lambda>a2.
        actions_loop hid (street', actions @ a1 @ a2) lines)))"

text \<open>Step 5: the last flop, turn and river matches; the non-empty ones are joined with
  a bar.  A group that is \<^verbatim>\<open>None\<close> is dropped by \<^verbatim>\<open>if p\<close> like the empty string.\<close>

definition group_or_empty :: "groups \<Rightarrow> string \<Rightarrow> string" where
  "group_or_empty m name = (case group m name of None \<Rightarrow> [] | Some v \<Rightarrow> v)"

fun board_loop :: "string \<times> string \<times> string \<Rightarrow> string list \<Rightarrow> string \<times> string \<times> string" where
  "board_loop (flop, turn, river) [] = (flop, turn, river)"
| "board_loop (flop, turn, river) (line # lines) =
     (let flop' = (case re_search RE_FLOP line of Some m \<Rightarrow> group_or_empty m ''flop'' | None \<Rightarrow> flop);
          turn' = (case re_search RE_TURN line of Some m \<Rightarrow> group_or_empty m ''turn'' | None \<Rightarrow> turn);
          river' = (case re_search RE_RIVER line of Some m \<Rightarrow> group_or_empty m ''river'' | None \<Rightarrow> river)
      in board_loop (flop', turn', river') lines)"

fun join :: "string \<Rightarrow> string list \<Rightarrow> string" where
  "join sep [] = []"
| "join sep [p] = p"
| "join sep (p # ps) = p @ sep @ join sep ps"

definition board_of :: "string list \<Rightarrow> string" where
  "board_of lines =
     (let (flop, turn, river) = board_loop ([], [], []) lines
      in join ''|'' (filter (\<lambda>p. p \<noteq> []) [flop, turn, river]))"

text \<open>Step 6: pot and rake of the last summary line, and one winner for every
  \<^verbatim>\<open>collected\<close> line.\<close>

fun summary_loop :: "hand_record \<times> winner_record list \<Rightarrow> string list
    \<Rightarrow> py_error + (hand_record \<times> winner_record list)" where
  "summary_loop (hand, winners) [] = Inr (hand, winners)"
| "summary_loop (hand, winners) (line # lines) =
     (let hand' = (case re_search RE_SUMMARY_POT line of
                     Some m \<Rightarrow> hand\<lparr>pot_total := to_float_safe (group m ''pot''),
                                     rake := to_float_safe (group m ''rake'')\<rparr>
                   | None \<Rightarrow> hand)
      in case re_search RE_COLLECTED line of
           Some m \<Rightarrow>
             then_do (req (group m ''player'')) (\<lambda>pl.
               summary_loop (hand', winners @ [\<lparr>w_player = strip pl,
                                                w_amount = to_float_safe (group m ''amt'')\<rparr>]) lines)
         | None \<Rightarrow> summary_loop (hand', winners) lines)"

text \<open>The body of the \<^verbatim>\<open>try\<close> statement: the steps in the order of the source, ending
  with the check that raises \<^verbatim>\<open>ValueError\<close> when \<^verbatim>\<open>hand_id\<close> is \<^verbatim>\<open>None\<close> or
  empty.\<close>

definition parse_body :: "string list \<Rightarrow> py_error + (hand_record \<times> action_record list)" where
  "parse_body lines =
     (let hand1 = initial_hand\<lparr>hand_id := find_hand_id lines\<rparr> in
      then_do (parse_limit hand1 lines) (\<lambda>hand2.
      then_do (parse_seats [] lines) (\<lambda>seats.
        let hand3 = (if seats \<noteq> []
                     then hand2\<lparr>players := Some (int (length seats)),
                                table_size := Some (int (length seats))\<rparr>
                     else hand2) in
      then_do (parse_button hand3 lines) (\<lambda>hand4.
      then_do (actions_loop (hand_id hand4) (''preflop'', []) lines) (\<lambda>(street, actions).
        let hand5 = hand4\<lparr>board := board_of lines\<rparr> in
      then_do (summary_loop (hand5, []) lines) (\<lambda>(hand6, winners).
        let hand7 = (if winners \<noteq> [] then hand6\<lparr>winner_json := winners\<rparr> else hand6) in
        if hand_id hand7 = None \<or> hand_id hand7 = Some [] then Inl ValueError
        else Inr (hand7, actions)))))))"

text \<open>\<^verbatim>\<open>parse_hand\<close>: any exception of the body gives \<^verbatim>\<open>(None, [])\<close>.\<close>

definition parse_hand :: "string list \<Rightarrow> hand_record option \<times> action_record list" where
  "parse_hand lines =
     (case parse_body lines of
        Inl e \<Rightarrow> (None, [])
      | Inr (hand, actions) \<Rightarrow> (Some hand, actions))"

section \<open>The batch\<close>

text \<open>
  \<^verbatim>\<open>process_input\<close> reads the files (outside the model: the argument \<open>files\<close> is the
  list of line sequences that \<^verbatim>\<open>read_hh_files\<close> yields), submits one task per block and
  then goes through the results in submission order.  A filter that is \<^verbatim>\<open>None\<close>,
  zero or empty is skipped by the test for truth; \<^verbatim>\<open>hand.get('players', 0)\<close> returns
  the value stored under the key, which is \<^verbatim>\<open>None\<close> for a hand without seat lines, and
  comparing \<^verbatim>\<open>None\<close> with a number raises \<^verbatim>\<open>TypeError\<close>.
\<close>

record filters =
  game_filter :: "string list option"
  min_players :: "int option"
  max_players :: "int option"

definition game_excluded :: "filters \<Rightarrow> hand_record \<Rightarrow> bool" where
  "game_excluded f hand =
     (case game_filter f of
        None \<Rightarrow> False
      | Some gs \<Rightarrow> gs \<noteq> [] \<and> (case game hand of None \<Rightarrow> True | Some g \<Rightarrow> g \<notin> set gs))"

definition below_min :: "filters \<Rightarrow> hand_record \<Rightarrow> py_error + bool" where
  "below_min f hand =
     (case min_players f of
        None \<Rightarrow> Inr False
      | Some n \<Rightarrow> if n = 0 then Inr False
                  else (case players hand of None \<Rightarrow> Inl TypeError | Some p \<Rightarrow> Inr (p < n)))"

definition above_max :: "filters \<Rightarrow> hand_record \<Rightarrow> py_error + bool" where
  "above_max f hand =
     (case max_players f of
        None \<Rightarrow> Inr False
      | Some n \<Rightarrow> if n = 0 then Inr False
                  else (case players hand of None \<Rightarrow> Inl TypeError | Some p \<Rightarrow> Inr (n < p)))"

fun collect :: "filters \<Rightarrow> hand_record list \<times> action_record list
    \<Rightarrow> (hand_record option \<times> action_record list) list
    \<Rightarrow> py_error + (hand_record list \<times> action_record list)" where
  "collect f (all_hands, all_actions) [] = Inr (all_hands, all_actions)"
| "collect f (all_hands, all_actions) ((None, actions) # futures) =
     collect f (all_hands, all_actions) futures"
| "collect f (all_hands, all_actions) ((Some hand, actions) # futures) =
     (if game_excluded f hand then collect f (all_hands, all_actions) futures
      else then_do (below_min f hand) (\<lambda>skip1.
        if skip1 then collect f (all_hands, all_actions) futures
        else then_do (above_max f hand) (\<lambda>skip2.
          if skip2 then collect f (all_hands, all_actions) futures
          else collect f (all_hands @ [hand], all_actions @ actions) futures)))"

definition process_input :: "string list list \<Rightarrow> filters
    \<Rightarrow> py_error + (hand_record list \<times> action_record list)" where
  "process_input files f =
     collect f ([], [])
       (concat (map (\<lambda>text_lines. map parse_hand (split_into_hands text_lines)) files))"

section \<open>The self-test hand of the source\<close>

text \<open>\<^verbatim>\<open>TEST_HAND.strip().split('\n')\<close>, the block that \<^verbatim>\<open>_test\<close> parses.\<close>

definition TEST_HAND :: "string list" where
  "TEST_HAND = [''Hand #123456789'',
     ''Table: NL Hold'' @ [CHR 0x27] @ ''em ($0.01/$0.02 USD)'',
     ''Seat 1: Hero (2.00)'',
     ''Seat 2: Villain (2.00)'',
     ''Hero posts small blind 0.01'',
     ''Villain posts big blind 0.02'',
     ''*** HOLE CARDS ***'',
     ''Hero: raises to 0.06'',
     ''Villain: calls 0.04'',
     ''*** FLOP *** [Ah Kd 7s]'',
     ''Hero: bets 0.10'',
     ''Villain: folds'',
     ''Uncalled bet of 0.10 returned to Hero'',
     ''Hero collected 0.12 from pot'',
     ''*** SUMMARY ***'',
     ''Total pot 0.12 | Rake 0.00'']"

section \<open>Notions used to state the properties\<close>

text \<open>
  \<open>accepts r n w s'\<close>: at position \<open>n\<close> the pattern \<open>r\<close> can consume the text \<open>w\<close> when
  \<open>s'\<close> is what follows.  \<open>captures r name txt\<close>: some group \<open>name\<close> of \<open>r\<close> can hold
  \<open>txt\<close>.  \<open>always_sets r name\<close>: every match of \<open>r\<close> goes through a group \<open>name\<close>.
  These describe the matcher; the parser itself only uses \<open>rx_match\<close>.
\<close>

definition same_letters :: "string \<Rightarrow> string \<Rightarrow> bool" where
  "same_letters l w \<longleftrightarrow> length w = length l \<and> map lower w = map lower l"

fun accepts :: "rx \<Rightarrow> nat \<Rightarrow> string \<Rightarrow> string \<Rightarrow> bool" where
  "accepts (Cls p) n w s' \<longleftrightarrow> (\<exists>c. w = [c] \<and> p c)"
| "accepts (Lit l) n w s' \<longleftrightarrow> same_letters l w"
| "accepts (Seq a b) n w s' \<longleftrightarrow>
     (\<exists>u v. w = u @ v \<and> accepts a n u (v @ s') \<and> accepts b (n + length u) v s')"
| "accepts (Alt a b) n w s' \<longleftrightarrow> accepts a n w s' \<or> accepts b n w s'"
| "accepts (Opt a) n w s' \<longleftrightarrow> accepts a n w s' \<or> w = []"
| "accepts (Star p) n w s' \<longleftrightarrow> list_all p w"
| "accepts (Plus p) n w s' \<longleftrightarrow> w \<noteq> [] \<and> list_all p w"
| "accepts (PlusLazy p) n w s' \<longleftrightarrow> w \<noteq> [] \<and> list_all p w"
| "accepts (Grp name a) n w s' \<longleftrightarrow> accepts a n w s'"
| "accepts Bol n w s' \<longleftrightarrow> w = [] \<and> n = 0"
| "accepts Eol n w s' \<longleftrightarrow> w = [] \<and> (s' = [] \<or> s' = [newline])"

fun captures :: "rx \<Rightarrow> string \<Rightarrow> string \<Rightarrow> bool" where
  "captures (Grp nm a) name txt \<longleftrightarrow> (nm = name \<and> (\<exists>n s'. accepts a n txt s')) \<or> captures a name txt"
| "captures (Seq a b) name txt \<longleftrightarrow> captures a name txt \<or> captures b name txt"
| "captures (Alt a b) name txt \<longleftrightarrow> captures a name txt \<or> captures b name txt"
| "captures (Opt a) name txt \<longleftrightarrow> captures a name txt"
| "captures r name txt \<longleftrightarrow> False"

fun always_sets :: "rx \<Rightarrow> string \<Rightarrow> bool" where
  "always_sets (Grp nm a) name \<longleftrightarrow> nm = name \<or> always_sets a name"
| "always_sets (Seq a b) name \<longleftrightarrow> always_sets a name \<or> always_sets b name"
| "always_sets (Alt a b) name \<longleftrightarrow> always_sets a name \<and> always_sets b name"
| "always_sets r name \<longleftrightarrow> False"


text \<open>
  The number of cards of a board string: the number of maximal runs of characters that
  are neither white space nor the bar that joins flop, turn and river.
\<close>

definition is_sep :: "char \<Rightarrow> bool" where
  "is_sep c \<longleftrightarrow> is_space c \<or> c = CHR ''|''"

fun count_tokens :: "bool \<Rightarrow> string \<Rightarrow> nat" where
  "count_tokens inside [] = 0"
| "count_tokens inside (c # cs) =
     (if is_sep c then count_tokens False cs
      else (if inside then 0 else 1) + count_tokens True cs)"

definition card_count :: "string \<Rightarrow> nat" where
  "card_count b = count_tokens False b"

definition has_line :: "rx \<Rightarrow> string list \<Rightarrow> bool" where
  "has_line r lines = list_ex (\<lambda>l. re_search r l \<noteq> None) lines"



text \<open>
  \<open>part_ok r k lines p0 p\<close>: after the board loop, the part \<open>p\<close> read by the pattern
  \<open>r\<close> holds \<open>k\<close> cards if some line matched \<open>r\<close>, and is still the initial \<open>p0\<close>
  otherwise.
\<close>

definition part_ok :: "rx \<Rightarrow> nat \<Rightarrow> string list \<Rightarrow> string \<Rightarrow> string \<Rightarrow> bool" where
  "part_ok r k lines p0 p \<longleftrightarrow>
     (if has_line r lines then p \<noteq> [] \<and> card_count p = k else p = p0)"

text \<open>The number that a list of bits denotes, the most significant bit first.\<close>

fun bval :: "bool list \<Rightarrow> nat" where
  "bval [] = 0"
| "bval (x # xs) = of_bool x * 2 ^ length xs + bval xs"

section \<open>Characters by code point\<close>

lemma bval_less: "bval xs < 2 ^ length xs"
  by (induction xs) (auto simp: of_bool_def)

lemma le_bits_iff: "length xs = length ys \<Longrightarrow> le_bits xs ys \<longleftrightarrow> bval xs \<le> bval ys"
proof (induction xs ys rule: list_induct2)
  case Nil
  show ?case by simp
next
  case (Cons x xs y ys)
  have "bval xs < 2 ^ length ys" "bval ys < 2 ^ length ys"
    using bval_less[of xs] bval_less[of ys] Cons.hyps by simp_all
  then show ?case using Cons by (cases x; cases y) auto
qed

lemma of_char_bits: "of_char c = bval (bits c)"
  by (cases c) (simp add: bits_def)

lemma length_bits: "length (bits c) = 8"
  by (cases c) (simp add: bits_def)

lemma char_le_iff: "char_le a b \<longleftrightarrow> (of_char a :: nat) \<le> of_char b"
  using le_bits_iff[of "bits a" "bits b"] by (simp add: char_le_def length_bits of_char_bits)

lemma in_range_iff: "in_range lo hi c \<longleftrightarrow> (of_char lo :: nat) \<le> of_char c \<and> (of_char c :: nat) \<le> of_char hi"
  by (simp add: in_range_def char_le_iff)

lemma lit_matches_iff:
  "lit_matches l s \<longleftrightarrow> length l \<le> length s \<and> map lower (take (length l) s) = map lower l"
  by (induction l s rule: lit_matches.induct) auto



lemma is_space_code:
  "is_space c \<longleftrightarrow> (9 \<le> (of_char c :: nat) \<and> (of_char c :: nat) \<le> 13)
     \<or> (28 \<le> (of_char c :: nat) \<and> (of_char c :: nat) \<le> 32)
     \<or> (of_char c :: nat) = 133 \<or> (of_char c :: nat) = 160"
proof -
  have "c = CHR 0x85 \<longleftrightarrow> (of_char c :: nat) = of_char (CHR 0x85)"
    "c = CHR 0xA0 \<longleftrightarrow> (of_char c :: nat) = of_char (CHR 0xA0)"
    by (simp_all only: of_char_eq_iff)
  then show ?thesis by (simp add: is_space_def in_range_iff)
qed

lemma is_upper_code:
  "is_upper c \<longleftrightarrow> (65 \<le> (of_char c :: nat) \<and> (of_char c :: nat) \<le> 90)
     \<or> (192 \<le> (of_char c :: nat) \<and> (of_char c :: nat) \<le> 222 \<and> (of_char c :: nat) \<noteq> 215)"
proof -
  have "c = CHR 0xD7 \<longleftrightarrow> (of_char c :: nat) = of_char (CHR 0xD7)"
    by (simp only: of_char_eq_iff)
  then show ?thesis by (simp add: is_upper_def in_range_iff)
qed

lemma space_not_upper: "is_space c \<Longrightarrow> \<not> is_upper c"
  unfolding is_space_code is_upper_code by arith

section \<open>The matcher and the patterns it accepts\<close>

lemma star_greedy_iff:
  "(n', s') \<in> set (star_greedy p n s) \<longleftrightarrow> (\<exists>w. s = w @ s' \<and> n' = n + length w \<and> list_all p w)"
proof (induction s arbitrary: n)
  case Nil
  then show ?case by auto
next
  case (Cons c cs)
  show ?case
  proof
    assume "(n', s') \<in> set (star_greedy p n (c # cs))"
    then consider "p c" "(n', s') \<in> set (star_greedy p (Suc n) cs)" | "n' = n" "s' = c # cs"
      by (auto split: if_splits)
    then show "\<exists>w. c # cs = w @ s' \<and> n' = n + length w \<and> list_all p w"
    proof cases
      case 1
      then obtain w where "cs = w @ s'" "n' = Suc n + length w" "list_all p w"
        using Cons.IH by blast
      then have "c # cs = (c # w) @ s' \<and> n' = n + length (c # w) \<and> list_all p (c # w)"
        using 1 by simp
      then show ?thesis by blast
    next
      case 2
      then have "c # cs = [] @ s' \<and> n' = n + length ([]::string) \<and> list_all p []" by simp
      then show ?thesis by blast
    qed
  next
    assume "\<exists>w. c # cs = w @ s' \<and> n' = n + length w \<and> list_all p w"
    then obtain w where w: "c # cs = w @ s'" "n' = n + length w" "list_all p w" by blast
    show "(n', s') \<in> set (star_greedy p n (c # cs))"
    proof (cases w)
      case Nil
      then have "s' = c # cs" "n' = n" using w by auto
      then show ?thesis by simp
    next
      case (Cons d ds)
      then have "p c" "cs = ds @ s'" "n' = Suc n + length ds" "list_all p ds" using w by auto
      then have "(n', s') \<in> set (star_greedy p (Suc n) cs)" using Cons.IH by blast
      then show ?thesis using \<open>p c\<close> by simp
    qed
  qed
qed

lemma star_lazy_set: "set (star_lazy p n s) = set (star_greedy p n s)"
  by (induction s arbitrary: n) auto

lemma rx_match_iff:
  "(\<exists>g'. (n', s', g') \<in> set (rx_match r (n, s, g))) \<longleftrightarrow>
   (\<exists>w. s = w @ s' \<and> n' = n + length w \<and> accepts r n w s')"
proof (induction r arbitrary: n s g n' s')
  case (Cls p)
  show ?case by (cases s) auto
next
  case (Lit l)
  show ?case
    apply (auto simp: lit_matches_iff same_letters_def)
      apply (rule exI[of _ "take (length l) s"])
    apply (simp add: min_def)
    done
next
  case (Seq a b)
  show ?case
  proof
    assume "\<exists>g'. (n', s', g') \<in> set (rx_match (Seq a b) (n, s, g))"
    then obtain g' nm sm gm where m: "(nm, sm, gm) \<in> set (rx_match a (n, s, g))"
        "(n', s', g') \<in> set (rx_match b (nm, sm, gm))"
      by auto
    from m(1) obtain u where u: "s = u @ sm" "nm = n + length u" "accepts a n u sm"
      using Seq.IH(1) by blast
    from m(2) obtain v where v: "sm = v @ s'" "n' = nm + length v" "accepts b nm v s'"
      using Seq.IH(2) by blast
    have "s = (u @ v) @ s' \<and> n' = n + length (u @ v) \<and> accepts (Seq a b) n (u @ v) s'"
      using u v by auto
    then show "\<exists>w. s = w @ s' \<and> n' = n + length w \<and> accepts (Seq a b) n w s'" by blast
  next
    assume "\<exists>w. s = w @ s' \<and> n' = n + length w \<and> accepts (Seq a b) n w s'"
    then obtain u v where uv: "s = (u @ v) @ s'" "n' = n + length (u @ v)"
        "accepts a n u (v @ s')" "accepts b (n + length u) v s'"
      by auto
    have "\<exists>w. s = w @ (v @ s') \<and> n + length u = n + length w \<and> accepts a n w (v @ s')"
      using uv by auto
    then obtain gm where gm: "(n + length u, v @ s', gm) \<in> set (rx_match a (n, s, g))"
      using Seq.IH(1) by blast
    have "\<exists>w. v @ s' = w @ s' \<and> n' = (n + length u) + length w \<and> accepts b (n + length u) w s'"
      using uv by auto
    then obtain g' where "(n', s', g') \<in> set (rx_match b (n + length u, v @ s', gm))"
      using Seq.IH(2) by blast
    then show "\<exists>g'. (n', s', g') \<in> set (rx_match (Seq a b) (n, s, g))"
      using gm by auto
  qed
next
  case (Alt a b)
  have "(\<exists>g'. (n', s', g') \<in> set (rx_match (Alt a b) (n, s, g))) \<longleftrightarrow>
        (\<exists>g'. (n', s', g') \<in> set (rx_match a (n, s, g))) \<or> (\<exists>g'. (n', s', g') \<in> set (rx_match b (n, s, g)))"
    by auto
  then show ?case unfolding Alt.IH by auto
next
  case (Opt a)
  have "(\<exists>g'. (n', s', g') \<in> set (rx_match (Opt a) (n, s, g))) \<longleftrightarrow>
        (\<exists>g'. (n', s', g') \<in> set (rx_match a (n, s, g))) \<or> (n' = n \<and> s' = s)"
    by auto
  then show ?case unfolding Opt.IH by auto
next
  case (Star p)
  have "(\<exists>g'. (n', s', g') \<in> set (rx_match (Star p) (n, s, g))) \<longleftrightarrow> (n', s') \<in> set (star_greedy p n s)"
    by force
  then show ?case by (simp add: star_greedy_iff)
next
  case (Plus p)
  show ?case
  proof (cases s)
    case Nil
    then show ?thesis by auto
  next
    case (Cons c cs)
    have "(\<exists>g'. (n', s', g') \<in> set (rx_match (Plus p) (n, s, g))) \<longleftrightarrow>
          p c \<and> (n', s') \<in> set (star_greedy p (Suc n) cs)"
      using Cons by force
    also have "\<dots> \<longleftrightarrow> p c \<and> (\<exists>w. cs = w @ s' \<and> n' = Suc n + length w \<and> list_all p w)"
      by (simp add: star_greedy_iff)
    also have "\<dots> \<longleftrightarrow> (\<exists>w. s = w @ s' \<and> n' = n + length w \<and> accepts (Plus p) n w s')"
    proof
      assume "p c \<and> (\<exists>w. cs = w @ s' \<and> n' = Suc n + length w \<and> list_all p w)"
      then obtain w where "p c" "cs = w @ s'" "n' = Suc n + length w" "list_all p w" by blast
      then have "s = (c # w) @ s' \<and> n' = n + length (c # w) \<and> accepts (Plus p) n (c # w) s'"
        using Cons by simp
      then show "\<exists>w. s = w @ s' \<and> n' = n + length w \<and> accepts (Plus p) n w s'" by blast
    next
      assume "\<exists>w. s = w @ s' \<and> n' = n + length w \<and> accepts (Plus p) n w s'"
      then obtain w where w: "s = w @ s'" "n' = n + length w" "w \<noteq> []" "list_all p w" by auto
      then obtain d ds where "w = d # ds" by (cases w) auto
      then show "p c \<and> (\<exists>w. cs = w @ s' \<and> n' = Suc n + length w \<and> list_all p w)"
        using w Cons by auto
    qed
    finally show ?thesis .
  qed
next
  case (PlusLazy p)
  show ?case
  proof (cases s)
    case Nil
    then show ?thesis by auto
  next
    case (Cons c cs)
    have "(\<exists>g'. (n', s', g') \<in> set (rx_match (PlusLazy p) (n, s, g))) \<longleftrightarrow>
          p c \<and> (n', s') \<in> set (star_greedy p (Suc n) cs)"
      using Cons by (force simp: star_lazy_set)
    also have "\<dots> \<longleftrightarrow> p c \<and> (\<exists>w. cs = w @ s' \<and> n' = Suc n + length w \<and> list_all p w)"
      by (simp add: star_greedy_iff)
    also have "\<dots> \<longleftrightarrow> (\<exists>w. s = w @ s' \<and> n' = n + length w \<and> accepts (PlusLazy p) n w s')"
    proof
      assume "p c \<and> (\<exists>w. cs = w @ s' \<and> n' = Suc n + length w \<and> list_all p w)"
      then obtain w where "p c" "cs = w @ s'" "n' = Suc n + length w" "list_all p w" by blast
      then have "s = (c # w) @ s' \<and> n' = n + length (c # w) \<and> accepts (PlusLazy p) n (c # w) s'"
        using Cons by simp
      then show "\<exists>w. s = w @ s' \<and> n' = n + length w \<and> accepts (PlusLazy p) n w s'" by blast
    next
      assume "\<exists>w. s = w @ s' \<and> n' = n + length w \<and> accepts (PlusLazy p) n w s'"
      then obtain w where w: "s = w @ s'" "n' = n + length w" "w \<noteq> []" "list_all p w" by auto
      then obtain d ds where "w = d # ds" by (cases w) auto
      then show "p c \<and> (\<exists>w. cs = w @ s' \<and> n' = Suc n + length w \<and> list_all p w)"
        using w Cons by auto
    qed
    finally show ?thesis .
  qed
next
  case (Grp name a)
  have "(\<exists>g'. (n', s', g') \<in> set (rx_match (Grp name a) (n, s, g))) \<longleftrightarrow>
        (\<exists>g'. (n', s', g') \<in> set (rx_match a (n, s, g)))"
    by force
  then show ?case unfolding Grp.IH by simp
next
  case Bol
  show ?case by auto
next
  case Eol
  show ?case by auto
qed



lemma rx_match_groups:
  "(n', s', g') \<in> set (rx_match r (n, s, g)) \<Longrightarrow>
   \<exists>added. g' = added @ g \<and> (\<forall>(nm, txt) \<in> set added. captures r nm txt)
     \<and> (always_sets r name \<longrightarrow> name \<in> fst ` set added)"
proof (induction r arbitrary: n s g n' s' g')
  case (Cls p)
  then show ?case by (cases s) (auto split: if_splits)
next
  case (Lit l)
  then show ?case by (auto split: if_splits)
next
  case (Seq a b)
  from Seq.prems obtain nm sm gm where m: "(nm, sm, gm) \<in> set (rx_match a (n, s, g))"
      "(n', s', g') \<in> set (rx_match b (nm, sm, gm))"
    by auto
  from Seq.IH(1)[OF m(1)] obtain ad1 where a1: "gm = ad1 @ g"
      "\<forall>(nm, txt) \<in> set ad1. captures a nm txt" "always_sets a name \<longrightarrow> name \<in> fst ` set ad1"
    by blast
  from Seq.IH(2)[OF m(2)] obtain ad2 where a2: "g' = ad2 @ gm"
      "\<forall>(nm, txt) \<in> set ad2. captures b nm txt" "always_sets b name \<longrightarrow> name \<in> fst ` set ad2"
    by blast
  have "g' = (ad2 @ ad1) @ g" using a1 a2 by simp
  moreover have "\<forall>(nm, txt) \<in> set (ad2 @ ad1). captures (Seq a b) nm txt"
    using a1(2) a2(2) by auto
  moreover have "always_sets (Seq a b) name \<longrightarrow> name \<in> fst ` set (ad2 @ ad1)"
    using a1(3) a2(3) by auto
  ultimately show ?case by blast
next
  case (Alt a b)
  from Alt.prems consider "(n', s', g') \<in> set (rx_match a (n, s, g))"
    | "(n', s', g') \<in> set (rx_match b (n, s, g))" by auto
  then show ?case
  proof cases
    case 1
    from Alt.IH(1)[OF 1] obtain ad where "g' = ad @ g"
      "\<forall>(nm, txt) \<in> set ad. captures a nm txt" "always_sets a name \<longrightarrow> name \<in> fst ` set ad"
      by blast
    then have "g' = ad @ g \<and> (\<forall>(nm, txt) \<in> set ad. captures (Alt a b) nm txt)
        \<and> (always_sets (Alt a b) name \<longrightarrow> name \<in> fst ` set ad)" by auto
    then show ?thesis by blast
  next
    case 2
    from Alt.IH(2)[OF 2] obtain ad where "g' = ad @ g"
      "\<forall>(nm, txt) \<in> set ad. captures b nm txt" "always_sets b name \<longrightarrow> name \<in> fst ` set ad"
      by blast
    then have "g' = ad @ g \<and> (\<forall>(nm, txt) \<in> set ad. captures (Alt a b) nm txt)
        \<and> (always_sets (Alt a b) name \<longrightarrow> name \<in> fst ` set ad)" by auto
    then show ?thesis by blast
  qed
next
  case (Opt a)
  from Opt.prems consider "(n', s', g') \<in> set (rx_match a (n, s, g))" | "g' = g" by auto
  then show ?case
  proof cases
    case 1
    from Opt.IH[OF 1] obtain ad where "g' = ad @ g"
      "\<forall>(nm, txt) \<in> set ad. captures a nm txt"
      by blast
    then have "g' = ad @ g \<and> (\<forall>(nm, txt) \<in> set ad. captures (Opt a) nm txt)
        \<and> (always_sets (Opt a) name \<longrightarrow> name \<in> fst ` set ad)" by auto
    then show ?thesis by blast
  next
    case 2
    then show ?thesis by simp
  qed
next
  case (Star p)
  then show ?case by auto
next
  case (Plus p)
  then show ?case by (cases s) (auto split: if_splits)
next
  case (PlusLazy p)
  then show ?case by (cases s) (auto split: if_splits)
next
  case (Grp nm a)
  from Grp.prems obtain g0 where m: "(n', s', g0) \<in> set (rx_match a (n, s, g))"
      "g' = (nm, take (n' - n) s) # g0"
    by auto
  from m(1) have "\<exists>g'. (n', s', g') \<in> set (rx_match a (n, s, g))" by blast
  then obtain w where w: "s = w @ s'" "n' = n + length w" "accepts a n w s'"
    unfolding rx_match_iff by blast
  then have tk: "take (n' - n) s = w" by simp
  from Grp.IH[OF m(1)] obtain ad where ad: "g0 = ad @ g"
      "\<forall>(nm, txt) \<in> set ad. captures a nm txt" "always_sets a name \<longrightarrow> name \<in> fst ` set ad"
    by blast
  have "g' = ((nm, w) # ad) @ g" using m(2) tk ad(1) by simp
  moreover have "\<forall>(k, txt) \<in> set ((nm, w) # ad). captures (Grp nm a) k txt"
    using ad(2) w(3) by auto
  moreover have "always_sets (Grp nm a) name \<longrightarrow> name \<in> fst ` set ((nm, w) # ad)"
    using ad(3) by auto
  ultimately show ?case by blast
next
  case Bol
  then show ?case by (auto split: if_splits)
next
  case Eol
  then show ?case by (auto split: if_splits)
qed

lemma rx_match_group:
  assumes "(n', s', m) \<in> set (rx_match r (n, s, []))"
  shows "group m name = Some txt \<Longrightarrow> captures r name txt"
    and "always_sets r name \<Longrightarrow> group m name \<noteq> None"
proof -
  from rx_match_groups[OF assms, of name] have a: "\<forall>(nm, txt) \<in> set m. captures r nm txt"
      "always_sets r name \<longrightarrow> name \<in> fst ` set m"
    by auto
  show "group m name = Some txt \<Longrightarrow> captures r name txt"
    using a(1) by (auto simp: group_def dest: map_of_SomeD)
  show "always_sets r name \<Longrightarrow> group m name \<noteq> None"
    using a(2) by (simp add: group_def map_of_eq_None_iff)
qed

lemma re_match_group:
  assumes "re_match r s = Some m"
  shows "group m name = Some txt \<Longrightarrow> captures r name txt"
    and "always_sets r name \<Longrightarrow> group m name \<noteq> None"
proof -
  from assms obtain n' s' where "(n', s', m) \<in> set (rx_match r (0, s, []))"
    by (auto simp: re_match_def split: list.splits)
  then show "group m name = Some txt \<Longrightarrow> captures r name txt"
    and "always_sets r name \<Longrightarrow> group m name \<noteq> None"
    using rx_match_group by blast+
qed

lemma search_from_group:
  assumes "search_from r n s = Some m"
  shows "\<exists>n' s' k t. (n', s', m) \<in> set (rx_match r (k, t, []))"
  using assms
proof (induction r n s rule: search_from.induct)
  case (1 r n s)
  show ?case
  proof (cases "rx_match r (n, s, [])")
    case Nil
    then obtain c cs where s: "s = c # cs" using "1.prems" by (cases s) auto
    then have "search_from r (Suc n) cs = Some m" using "1.prems" Nil by simp
    then show ?thesis using "1.IH"[OF Nil s] by blast
  next
    case (Cons st sts)
    then obtain n' s' where "st = (n', s', m)" using "1.prems" by (cases st) auto
    then have "(n', s', m) \<in> set (rx_match r (n, s, []))" using Cons by simp
    then show ?thesis by blast
  qed
qed

lemma re_search_group:
  assumes "re_search r s = Some m"
  shows "group m name = Some txt \<Longrightarrow> captures r name txt"
    and "always_sets r name \<Longrightarrow> group m name \<noteq> None"
proof -
  from assms obtain n' s' k t where "(n', s', m) \<in> set (rx_match r (k, t, []))"
    using search_from_group unfolding re_search_def by blast
  then show "group m name = Some txt \<Longrightarrow> captures r name txt"
    and "always_sets r name \<Longrightarrow> group m name \<noteq> None"
    using rx_match_group by blast+
qed

section \<open>Counting cards\<close>

lemma sep_lower: "is_sep c \<Longrightarrow> lower c = c"
proof -
  have "\<not> is_upper (CHR ''|'')" by (simp add: is_upper_code)
  then show "is_sep c \<Longrightarrow> lower c = c"
    using space_not_upper by (auto simp: is_sep_def lower_def)
qed

lemma rank_not_sep: "is_rank c \<Longrightarrow> \<not> is_sep c"
proof
  assume r: "is_rank c" and s: "is_sep c"
  then have "c \<in> set ''23456789tjqka''" by (simp add: is_rank_def sep_lower)
  then show False using s by (auto simp: is_sep_def is_space_code)
qed

lemma suit_not_sep: "is_suit c \<Longrightarrow> \<not> is_sep c"
proof
  assume r: "is_suit c" and s: "is_sep c"
  then have "c \<in> set ''cdhs''" by (simp add: is_suit_def sep_lower)
  then show False using s by (auto simp: is_sep_def is_space_code)
qed

lemma count_tokens_sep:
  "is_sep x \<Longrightarrow> count_tokens b (u @ x # v) = count_tokens b u + count_tokens False v"
  by (induction u arbitrary: b) auto

lemma count_tokens_spaces:
  "list_all is_space u \<Longrightarrow> count_tokens False (u @ v) = count_tokens False v"
  by (induction u) (auto simp: is_sep_def)

lemma accepts_CARD:
  "accepts CARD n w s' \<Longrightarrow> w \<noteq> [] \<and> card_count w = 1"
  using rank_not_sep suit_not_sep by (auto simp: CARD_def card_count_def)

lemma card_count_bar:
  "card_count (u @ CHR ''|'' # v) = card_count u + card_count v"
  by (simp add: card_count_def count_tokens_sep is_sep_def)

lemma card_count_space_run:
  assumes "w \<noteq> []" "list_all is_space w"
  shows "card_count (u @ w @ v) = card_count u + card_count v"
proof -
  from assms obtain x xs where w: "w = x # xs" by (cases w) auto
  then have "is_sep x" "list_all is_space xs" using assms by (auto simp: is_sep_def)
  then show ?thesis
    using w by (simp add: card_count_def count_tokens_sep count_tokens_spaces)
qed

lemma captures_flop:
  assumes "captures RE_FLOP ''flop'' x"
  shows "x \<noteq> [] \<and> card_count x = 3"
proof -
  from assms obtain n s' where
    "accepts (seqs [CARD, Plus is_space, CARD, Plus is_space, CARD]) n x s'"
    by (auto simp: RE_FLOP_def CARD_def)
  then obtain c1 w1 c2 w2 c3 n1 n2 n3 t1 t2 t3 where x: "x = c1 @ w1 @ c2 @ w2 @ c3"
    and c: "accepts CARD n1 c1 t1" "accepts CARD n2 c2 t2" "accepts CARD n3 c3 t3"
    and w: "w1 \<noteq> []" "list_all is_space w1" "w2 \<noteq> []" "list_all is_space w2"
    by (simp del: accepts.simps(3) add: accepts.simps(3)[of CARD] accepts.simps(3)[of "Plus is_space"]) blast
  have "card_count x = card_count c1 + (card_count c2 + card_count c3)"
    unfolding x by (simp add: card_count_space_run w)
  moreover have "card_count c1 = 1" "card_count c2 = 1" "card_count c3 = 1" "c1 \<noteq> []"
    using c accepts_CARD by blast+
  ultimately show ?thesis using x by simp
qed

section \<open>The batch filter\<close>

lemma collect_cong:
  assumes "\<And>h. game_excluded f h = game_excluded f' h"
    and "\<And>h. below_min f h = below_min f' h"
    and "\<And>h. above_max f h = above_max f' h"
  shows "collect f acc futures = collect f' acc futures"
proof (induction futures arbitrary: acc)
  case Nil
  show ?case by (cases acc) simp
next
  case (Cons x futs)
  obtain h a where x: "x = (h, a)" by (cases x)
  obtain hs as where acc: "acc = (hs, as)" by (cases acc)
  show ?case
  proof (cases h)
    case None
    then show ?thesis unfolding x acc by (simp add: Cons.IH)
  next
    case (Some hand)
    show ?thesis unfolding x acc Some collect.simps assms Cons.IH ..
  qed
qed

text \<open>
  C10.  A filter configuration with \<^verbatim>\<open>min_players = 0\<close> or \<^verbatim>\<open>max_players = 0\<close> is
  treated as if that bound were not configured: the batch gives the same result as with
  \<^verbatim>\<open>None\<close>, and the zero bound excludes no hand.
\<close>

theorem zero_bound_is_unconfigured:
  "process_input files (f\<lparr>min_players := Some 0\<rparr>) = process_input files (f\<lparr>min_players := None\<rparr>)
   \<and> process_input files (f\<lparr>max_players := Some 0\<rparr>) = process_input files (f\<lparr>max_players := None\<rparr>)
   \<and> below_min (f\<lparr>min_players := Some 0\<rparr>) hand = Inr False
   \<and> above_max (f\<lparr>max_players := Some 0\<rparr>) hand = Inr False"
proof -
  have "collect (f\<lparr>min_players := Some 0\<rparr>) acc futs = collect (f\<lparr>min_players := None\<rparr>) acc futs"
    for acc futs
    by (rule collect_cong) (simp_all add: game_excluded_def below_min_def above_max_def)
  moreover have "collect (f\<lparr>max_players := Some 0\<rparr>) acc futs = collect (f\<lparr>max_players := None\<rparr>) acc futs"
    for acc futs
    by (rule collect_cong) (simp_all add: game_excluded_def below_min_def above_max_def)
  ultimately show ?thesis
    by (simp add: process_input_def below_min_def above_max_def)
qed

text \<open>
  C2.  The claim is that the batch never raises because of the content of the lines.
  On the code, a hand without seat lines makes the whole batch raise as soon as a player
  bound is configured: the first hand of this input has a seat line and passes, the second
  has none, and the comparison of \<^verbatim>\<open>None\<close> with the bound raises \<^verbatim>\<open>TypeError\<close> out of
  \<^verbatim>\<open>process_input\<close>.
\<close>

theorem batch_raises_on_hand_without_seats:
  "process_input [[''Hand #1'', ''Seat 1: Hero (2.00)'', ''Hand #2'', ''Hero: folds'']]
     \<lparr>game_filter = None, min_players = None, max_players = Some 6\<rparr> = Inl TypeError"
  by code_simp

text \<open>
  C3.  The claim is that a hand whose \<^verbatim>\<open>players\<close> is \<^verbatim>\<open>None\<close> counts as having 0
  players and is excluded by \<^verbatim>\<open>min_players = 1\<close> without a fault.  On the code the block
  \<^verbatim>\<open>Hand #1\<close> parses to a hand with \<^verbatim>\<open>players = None\<close>, and filtering it with
  \<^verbatim>\<open>min_players = 1\<close> raises \<^verbatim>\<open>TypeError\<close> instead of excluding the hand.
\<close>

theorem null_players_comparison_faults:
  "fst (parse_hand [''Hand #1'']) \<noteq> None
   \<and> map_option players (fst (parse_hand [''Hand #1''])) = Some None
   \<and> process_input [[''Hand #1'']] \<lparr>game_filter = None, min_players = Some 1, max_players = None\<rparr>
       = Inl TypeError"
  by code_simp

section \<open>Single hands\<close>

text \<open>
  C5.  The result of \<^verbatim>\<open>parse_hand\<close> on the self-test hand.  Identity, seats, board,
  pot, rake, the winner and the five actions are as the claim says; \<^verbatim>\<open>game\<close>,
  \<^verbatim>\<open>limit_type\<close>, the stakes and the currency are \<^verbatim>\<open>None\<close>, because \<^verbatim>\<open>RE_LIMIT\<close>
  wants a digit right after the parenthesis and the line has a dollar sign there.
\<close>

theorem test_hand_result:
  "parse_hand TEST_HAND =
    (Some \<lparr>hand_id = Some ''123456789'', site = ''pokerok'', game = None,
      limit_type = None, stakes_sb = None, stakes_bb = None,
      currency = None, players = Some 2, table_name = None,
      table_size = Some 2, btn_seat = None, board = ''Ah Kd 7s'',
      pot_total = Some (Finite (3 / 25)), rake = Some (Finite 0),
      winner_json = [\<lparr>w_player = ''Hero'', w_amount = Some (Finite (3 / 25))\<rparr>],
      parse_warnings = []\<rparr>,
     [\<lparr>act_hand_id = Some ''123456789'', act_street = ''preflop'',
        act_player = ''Hero'', act_action = ''raises to'', act_amount = Some (Finite (3 / 50))\<rparr>,
      \<lparr>act_hand_id = Some ''123456789'', act_street = ''preflop'',
        act_player = ''Villain'', act_action = ''calls'', act_amount = Some (Finite (1 / 25))\<rparr>,
      \<lparr>act_hand_id = Some ''123456789'', act_street = ''flop'',
        act_player = ''Hero'', act_action = ''bets'', act_amount = Some (Finite (1 / 10))\<rparr>,
      \<lparr>act_hand_id = Some ''123456789'', act_street = ''flop'',
        act_player = ''Villain'', act_action = ''folds'', act_amount = None\<rparr>,
      \<lparr>act_hand_id = Some ''123456789'', act_street = ''flop'',
        act_player = ''Hero'', act_action = ''return_uncalled'',
        act_amount = Some (Finite (- (1 / 10)))\<rparr>])"
  by code_simp

text \<open>
  C7.  The claim is that an unparsable numeric token only makes its field \<^verbatim>\<open>None\<close>.
  The token \<^verbatim>\<open>1.2.3\<close> is matched by \<^verbatim>\<open>[\d\.]+\<close> and is no number; in an uncalled-bet
  line the source negates the \<^verbatim>\<open>None\<close> that \<^verbatim>\<open>to_float_safe\<close> returns, and the
  whole hand is lost.
\<close>

theorem unparsable_return_amount_fails_hand:
  "to_float_safe (Some ''1.2.3'') = None
   \<and> parse_hand [''Hand #1'', ''Hero: bets 0.10'', ''Uncalled bet of 1.2.3 returned to Hero'']
       = (None, [])"
  by code_simp

text \<open>
  C8.  The claim is that stakes written with a comma are read.  \<^verbatim>\<open>to_float_safe\<close>
  would read \<^verbatim>\<open>0,01\<close>, but \<^verbatim>\<open>RE_LIMIT\<close> only lets digits and dots into the stake
  groups, so a stakes line with commas does not match and the stakes stay \<^verbatim>\<open>None\<close>;
  the same line with dots is read.
\<close>

theorem comma_stakes_not_read:
  "re_search RE_LIMIT (''NL Hold'' @ [CHR 0x27] @ ''em (0,01/0,02 USD)'') = None
   \<and> map_option stakes_sb (fst (parse_hand [''Hand #1'', ''NL Hold'' @ [CHR 0x27] @ ''em (0,01/0,02 USD)'']))
       = Some None
   \<and> map_option stakes_bb (fst (parse_hand [''Hand #1'', ''NL Hold'' @ [CHR 0x27] @ ''em (0,01/0,02 USD)'']))
       = Some None
   \<and> map_option stakes_sb (fst (parse_hand [''Hand #1'', ''NL Hold'' @ [CHR 0x27] @ ''em (0.01/0.02 USD)'']))
       = Some (Some (Finite (1 / 100)))
   \<and> to_float_safe (Some ''0,01'') = Some (Finite (1 / 100))"
  by code_simp

section \<open>A hand is emitted whole or not at all\<close>

lemma then_do_Inr: "then_do m f = Inr y \<longleftrightarrow> (\<exists>x. m = Inr x \<and> f x = Inr y)"
  by (cases m) (auto simp: then_do_def)

lemma find_hand_id_None:
  "\<forall>l\<in>set lines. re_match RE_HAND_HEADER l = None \<Longrightarrow> find_hand_id lines = None"
  by (induction lines) auto

lemma parse_limit_hand_id: "parse_limit hand lines = Inr hand' \<Longrightarrow> hand_id hand' = hand_id hand"
  by (induction lines) (auto simp: then_do_Inr split: option.splits)

lemma parse_button_hand_id: "parse_button hand lines = Inr hand' \<Longrightarrow> hand_id hand' = hand_id hand"
  by (induction lines) (auto simp: then_do_Inr split: option.splits)

lemma summary_loop_keeps:
  "summary_loop (hand, winners) lines = Inr (hand', winners') \<Longrightarrow>
   hand_id hand' = hand_id hand \<and> board hand' = board hand"
proof (induction lines arbitrary: hand winners)
  case Nil
  then show ?case by simp
next
  case (Cons line lines)
  then show ?case
    by (auto simp: then_do_Inr Let_def split: option.splits)
qed

lemma line_actions_hand_id:
  "action_of_line hid street line = Inr a1 \<Longrightarrow> \<forall>a\<in>set a1. act_hand_id a = hid"
  "return_of_line hid street line = Inr a2 \<Longrightarrow> \<forall>a\<in>set a2. act_hand_id a = hid"
  by (auto simp: action_of_line_def return_of_line_def then_do_Inr split: option.splits)

lemma actions_loop_hand_id:
  "actions_loop hid (street, actions) lines = Inr (street', actions') \<Longrightarrow>
   \<forall>a\<in>set actions. act_hand_id a = hid \<Longrightarrow> \<forall>a\<in>set actions'. act_hand_id a = hid"
proof (induction lines arbitrary: street actions)
  case Nil
  then show ?case by simp
next
  case (Cons line lines)
  from Cons.prems(1) obtain a1 a2 where
    a: "action_of_line hid (marker_street street line) line = Inr a1"
       "return_of_line hid (marker_street street line) line = Inr a2"
       "actions_loop hid (marker_street street line, actions @ a1 @ a2) lines = Inr (street', actions')"
    by (auto simp: then_do_Inr Let_def)
  have "\<forall>a\<in>set (actions @ a1 @ a2). act_hand_id a = hid"
    using Cons.prems(2) line_actions_hand_id(1)[OF a(1)] line_actions_hand_id(2)[OF a(2)] by auto
  then show ?case using Cons.IH[OF a(3)] by blast
qed

lemma parse_body_steps:
  assumes "parse_body lines = Inr (hand, actions)"
  shows "\<exists>hand2 (seats :: seat_record list) hand4 street hand6 winners.
       parse_limit (initial_hand\<lparr>hand_id := find_hand_id lines\<rparr>) lines = Inr hand2
     \<and> parse_button (if seats \<noteq> [] then hand2\<lparr>players := Some (int (length seats)),
            table_size := Some (int (length seats))\<rparr> else hand2) lines = Inr hand4
     \<and> actions_loop (hand_id hand4) (''preflop'', []) lines = Inr (street, actions)
     \<and> summary_loop (hand4\<lparr>board := board_of lines\<rparr>, []) lines = Inr (hand6, winners)
     \<and> hand = (if winners \<noteq> [] then hand6\<lparr>winner_json := winners\<rparr> else hand6)
     \<and> hand_id hand \<noteq> None \<and> hand_id hand \<noteq> Some []"
proof -
  from assms obtain hand2 where 1:
    "parse_limit (initial_hand\<lparr>hand_id := find_hand_id lines\<rparr>) lines = Inr hand2"
    unfolding parse_body_def Let_def then_do_Inr by blast
  from assms 1 obtain seats where 2: "parse_seats [] lines = Inr seats"
    unfolding parse_body_def Let_def by (auto simp: then_do_Inr)
  define hand3 where "hand3 = (if seats \<noteq> [] then hand2\<lparr>players := Some (int (length seats)),
            table_size := Some (int (length seats))\<rparr> else hand2)"
  from assms 1 2 obtain hand4 where 3: "parse_button hand3 lines = Inr hand4"
    unfolding parse_body_def Let_def hand3_def by (auto simp: then_do_Inr)
  from assms 1 2 3 obtain sa where 4: "actions_loop (hand_id hand4) (''preflop'', []) lines = Inr sa"
    unfolding parse_body_def Let_def hand3_def by (auto simp: then_do_Inr)
  obtain street acts where sa: "sa = (street, acts)" by (cases sa)
  from assms 1 2 3 4 sa obtain hw where
    5: "summary_loop (hand4\<lparr>board := board_of lines\<rparr>, []) lines = Inr hw"
    unfolding parse_body_def Let_def hand3_def by (auto simp: then_do_Inr)
  obtain hand6 winners where hw: "hw = (hand6, winners)" by (cases hw)
  define hand7 where "hand7 = (if winners \<noteq> [] then hand6\<lparr>winner_json := winners\<rparr> else hand6)"
  from assms 1 2 3 4 sa 5 hw have
    6: "(if hand_id hand7 = None \<or> hand_id hand7 = Some [] then Inl ValueError
         else Inr (hand7, acts)) = Inr (hand, actions)"
    unfolding parse_body_def Let_def hand3_def hand7_def by (simp add: then_do_def)
  then have 7: "hand_id hand7 \<noteq> None" "hand_id hand7 \<noteq> Some []" "hand = hand7" "actions = acts"
    by (auto split: if_splits)
  show ?thesis
    apply (rule exI[of _ hand2])
    apply (rule exI[of _ seats])
    apply (rule exI[of _ hand4])
    apply (rule exI[of _ street])
    apply (rule exI[of _ hand6])
    apply (rule exI[of _ winners])
    apply (insert 1 3 4 sa 5 hw 7)
    apply (simp add: hand3_def hand7_def)
    done
qed

lemma parse_body_Inr:
  assumes "parse_body lines = Inr (hand, actions)"
  shows "hand_id hand = find_hand_id lines"
    and "hand_id hand \<noteq> None" and "hand_id hand \<noteq> Some []"
    and "board hand = board_of lines"
    and "\<exists>street. actions_loop (hand_id hand) (''preflop'', []) lines = Inr (street, actions)"
proof -
  from parse_body_steps[OF assms] obtain hand2 and seats :: "seat_record list"
    and hand4 street hand6 winners where
    s: "parse_limit (initial_hand\<lparr>hand_id := find_hand_id lines\<rparr>) lines = Inr hand2"
       "parse_button (if seats \<noteq> [] then hand2\<lparr>players := Some (int (length seats)),
            table_size := Some (int (length seats))\<rparr> else hand2) lines = Inr hand4"
       "actions_loop (hand_id hand4) (''preflop'', []) lines = Inr (street, actions)"
       "summary_loop (hand4\<lparr>board := board_of lines\<rparr>, []) lines = Inr (hand6, winners)"
       "hand = (if winners \<noteq> [] then hand6\<lparr>winner_json := winners\<rparr> else hand6)"
       "hand_id hand \<noteq> None" "hand_id hand \<noteq> Some []"
    by blast
  have h2: "hand_id hand2 = find_hand_id lines" using parse_limit_hand_id[OF s(1)] by simp
  have h4: "hand_id hand4 = find_hand_id lines" using parse_button_hand_id[OF s(2)] h2 by (simp split: if_splits)
  have h6: "hand_id hand6 = find_hand_id lines" "board hand6 = board_of lines"
    using summary_loop_keeps[OF s(4)] h4 by simp_all
  show "hand_id hand = find_hand_id lines" using s(5) h6 by simp
  then show "\<exists>street. actions_loop (hand_id hand) (''preflop'', []) lines = Inr (street, actions)"
    using s(3) h4 by auto
  show "hand_id hand \<noteq> None" "hand_id hand \<noteq> Some []" using s(6,7) by auto
  show "board hand = board_of lines" using s(5) h6 by simp
qed

lemma parse_hand_Some:
  "parse_hand lines = (Some hand, actions) \<longleftrightarrow> parse_body lines = Inr (hand, actions)"
  by (auto simp: parse_hand_def split: sum.splits)

lemma parse_hand_actions_hand_id:
  assumes "parse_hand lines = (Some hand, actions)"
  shows "\<forall>a\<in>set actions. act_hand_id a = hand_id hand"
proof -
  from assms have b: "parse_body lines = Inr (hand, actions)" by (simp add: parse_hand_Some)
  from parse_body_Inr(5)[OF b] obtain street where
    "actions_loop (hand_id hand) (''preflop'', []) lines = Inr (street, actions)" by blast
  from actions_loop_hand_id[OF this] show ?thesis by simp
qed

lemma parse_hand_None: "fst (parse_hand lines) = None \<Longrightarrow> snd (parse_hand lines) = []"
  by (auto simp: parse_hand_def split: sum.splits)

lemma collect_step:
  assumes "collect f (all_hands, all_actions) ((Some hand, as) # futures) = Inr r"
  shows "collect f (all_hands, all_actions) futures = Inr r
       \<or> collect f (all_hands @ [hand], all_actions @ as) futures = Inr r"
proof (cases "game_excluded f hand")
  case True
  then show ?thesis using assms by simp
next
  case False
  from assms False obtain skip1 where s1: "below_min f hand = Inr skip1"
    by (auto simp: then_do_Inr)
  show ?thesis
  proof (cases skip1)
    case True
    then show ?thesis using assms False s1 by (simp add: then_do_def)
  next
    case n1: False
    from assms False s1 n1 obtain skip2 where s2: "above_max f hand = Inr skip2"
      by (auto simp: then_do_Inr)
    show ?thesis using assms False s1 n1 s2 by (cases skip2) (simp_all add: then_do_def)
  qed
qed

lemma collect_hand_ids:
  assumes "collect f (all_hands, all_actions) futures = Inr (hands, actions)"
    and "\<forall>a\<in>set all_actions. \<exists>h\<in>set all_hands. act_hand_id a = hand_id h"
    and "\<forall>(h, as)\<in>set futures. \<forall>hand. h = Some hand \<longrightarrow> (\<forall>a\<in>set as. act_hand_id a = hand_id hand)"
  shows "\<forall>a\<in>set actions. \<exists>h\<in>set hands. act_hand_id a = hand_id h"
  using assms
proof (induction futures arbitrary: all_hands all_actions)
  case Nil
  then show ?case by simp
next
  case (Cons x futures)
  obtain h as where x: "x = (h, as)" by (cases x)
  have fut: "\<forall>(h, as)\<in>set futures. \<forall>hand. h = Some hand \<longrightarrow> (\<forall>a\<in>set as. act_hand_id a = hand_id hand)"
    using Cons.prems(3) by simp
  show ?case
  proof (cases h)
    case None
    then have "collect f (all_hands, all_actions) futures = Inr (hands, actions)"
      using Cons.prems(1) x by simp
    then show ?thesis using Cons.IH Cons.prems(2) fut by blast
  next
    case (Some hand)
    have own: "\<forall>a\<in>set as. act_hand_id a = hand_id hand" using Cons.prems(3) x Some by simp
    have inv: "\<forall>a\<in>set (all_actions @ as). \<exists>h\<in>set (all_hands @ [hand]). act_hand_id a = hand_id h"
      using Cons.prems(2) own by auto
    from Cons.prems(1) x Some
    have "collect f (all_hands, all_actions) futures = Inr (hands, actions)
       \<or> collect f (all_hands @ [hand], all_actions @ as) futures = Inr (hands, actions)"
      using collect_step by blast
    then show ?thesis
      using Cons.IH[OF _ Cons.prems(2) fut] Cons.IH[OF _ inv fut] by blast
  qed
qed

text \<open>
  C1.  If no line of the block matches the header pattern, \<^verbatim>\<open>parse_hand\<close> returns no
  hand and no actions; whenever it returns no hand, for whatever reason, the action list
  is empty; and every action that \<^verbatim>\<open>process_input\<close> returns carries the
  \<^verbatim>\<open>hand_id\<close> of a hand it returns.
\<close>

theorem parse_hand_all_or_nothing:
  "((\<forall>l\<in>set lines. re_match RE_HAND_HEADER l = None) \<longrightarrow> parse_hand lines = (None, []))
   \<and> (fst (parse_hand lines) = None \<longrightarrow> snd (parse_hand lines) = [])
   \<and> (process_input files f = Inr (hands, actions) \<longrightarrow>
        (\<forall>a\<in>set actions. \<exists>h\<in>set hands. act_hand_id a = hand_id h))"
proof (intro conjI impI)
  assume n: "\<forall>l\<in>set lines. re_match RE_HAND_HEADER l = None"
  show "parse_hand lines = (None, [])"
  proof (cases "parse_body lines")
    case (Inl e)
    then show ?thesis by (simp add: parse_hand_def)
  next
    case (Inr r)
    obtain hand acts where r: "r = (hand, acts)" by (cases r)
    from parse_body_Inr(1,2)[OF Inr[unfolded r]] find_hand_id_None[OF n]
    show ?thesis by simp
  qed
next
  assume "fst (parse_hand lines) = None"
  then show "snd (parse_hand lines) = []" by (rule parse_hand_None)
next
  assume p: "process_input files f = Inr (hands, actions)"
  have own: "act_hand_id a = hand_id hand"
    if "parse_hand block = (Some hand, as)" "a \<in> set as" for hand as block a
    using parse_hand_actions_hand_id[of block hand as] that by simp
  have "\<forall>(h, as)\<in>set (concat (map (\<lambda>text_lines. map parse_hand (split_into_hands text_lines)) files)).
          \<forall>hand. h = Some hand \<longrightarrow> (\<forall>a\<in>set as. act_hand_id a = hand_id hand)"
    by (auto dest: own)
  from collect_hand_ids[OF p[unfolded process_input_def] _ this]
  show "\<forall>a\<in>set actions. \<exists>h\<in>set hands. act_hand_id a = hand_id h" by simp
qed

theorem parse_hand_all_or_nothing_witness:
  "parse_hand [''Seat 1: Hero (2.00)'', ''Hero: bets 0.10''] = (None, [])
   \<and> (\<exists>h a. process_input [[''Hand #7'', ''Hero: folds'']]
                \<lparr>game_filter = None, min_players = None, max_players = None\<rparr> = Inr ([h], [a])
            \<and> act_hand_id a = hand_id h \<and> hand_id h = Some ''7'')"
proof -
  define H where "H = \<lparr>hand_id = Some ''7'', site = ''pokerok'', game = None,
      limit_type = None, stakes_sb = None, stakes_bb = None,
      currency = None, players = None, table_name = None,
      table_size = None, btn_seat = None, board = [],
      pot_total = None, rake = None, winner_json = [], parse_warnings = []\<rparr>"
  define A where "A = \<lparr>act_hand_id = Some ''7'', act_street = ''preflop'',
        act_player = ''Hero'', act_action = ''folds'', act_amount = None\<rparr>"
  have n: "\<forall>l\<in>set [''Seat 1: Hero (2.00)'', ''Hero: bets 0.10'']. re_match RE_HAND_HEADER l = None"
    by code_simp
  have p: "process_input [[''Hand #7'', ''Hero: folds'']]
      \<lparr>game_filter = None, min_players = None, max_players = None\<rparr> = Inr ([H], [A])"
    unfolding H_def A_def by code_simp
  from parse_hand_all_or_nothing[of "[''Seat 1: Hero (2.00)'', ''Hero: bets 0.10'']"
      "[[''Hand #7'', ''Hero: folds'']]" "\<lparr>game_filter = None, min_players = None, max_players = None\<rparr>"
      "[H]" "[A]"] n p
  have "parse_hand [''Seat 1: Hero (2.00)'', ''Hero: bets 0.10''] = (None, [])"
    "act_hand_id A = hand_id H"
    by simp_all
  moreover have "hand_id H = Some ''7''" by (simp add: H_def)
  ultimately show ?thesis using p by blast
qed

section \<open>The order of the actions\<close>

lemma actions_loop_acc:
  "actions_loop hid (street, acc) lines =
     (case actions_loop hid (street, []) lines of
        Inl e \<Rightarrow> Inl e
      | Inr (street', r) \<Rightarrow> Inr (street', acc @ r))"
proof (induction lines arbitrary: street acc)
  case Nil
  show ?case by simp
next
  case (Cons line lines)
  show ?case
  proof (cases "action_of_line hid (marker_street street line) line")
    case (Inl e)
    then show ?thesis by (simp add: then_do_def Let_def)
  next
    case a1: (Inr a1)
    show ?thesis
    proof (cases "return_of_line hid (marker_street street line) line")
      case (Inl e)
      then show ?thesis using a1 by (simp add: then_do_def Let_def)
    next
      case a2: (Inr a2)
      have "actions_loop hid (street, acc) (line # lines)
          = actions_loop hid (marker_street street line, acc @ a1 @ a2) lines"
        using a1 a2 by (simp add: then_do_def Let_def)
      moreover have "actions_loop hid (street, []) (line # lines)
          = actions_loop hid (marker_street street line, a1 @ a2) lines"
        using a1 a2 by (simp add: then_do_def Let_def)
      ultimately show ?thesis
        using Cons.IH[of "marker_street street line" "acc @ a1 @ a2"]
          Cons.IH[of "marker_street street line" "a1 @ a2"]
        by (auto split: sum.splits)
    qed
  qed
qed

lemma actions_loop_append:
  "actions_loop hid (street, acc) (xs @ ys) =
     then_do (actions_loop hid (street, acc) xs) (\<lambda>sa. actions_loop hid sa ys)"
proof (induction xs arbitrary: street acc)
  case Nil
  show ?case by (simp add: then_do_def)
next
  case (Cons line xs)
  show ?case
    by (cases "action_of_line hid (marker_street street line) line";
        cases "return_of_line hid (marker_street street line) line")
       (simp_all add: then_do_def Let_def Cons.IH)
qed

text \<open>
  C9.  The actions of a parsed hand are in the order of the lines that produced them:
  however the block is cut into a first part and a rest, the actions are those produced
  by the lines of the first part, followed by those produced by the lines of the rest
  (which start from the street the first part ended in).
\<close>

theorem actions_in_line_order:
  assumes "parse_hand lines = (Some hand, actions)" and "lines = xs @ ys"
  shows "\<exists>street as1 street' as2.
           actions_loop (hand_id hand) (''preflop'', []) xs = Inr (street, as1)
         \<and> actions_loop (hand_id hand) (street, []) ys = Inr (street', as2)
         \<and> actions = as1 @ as2"
proof -
  from assms(1) have "parse_body lines = Inr (hand, actions)" by (simp add: parse_hand_Some)
  from parse_body_Inr(5)[OF this] obtain s' where
    l: "actions_loop (hand_id hand) (''preflop'', []) (xs @ ys) = Inr (s', actions)"
    using assms(2) by blast
  then obtain sa where x: "actions_loop (hand_id hand) (''preflop'', []) xs = Inr sa"
    and y: "actions_loop (hand_id hand) sa ys = Inr (s', actions)"
    unfolding actions_loop_append then_do_Inr by blast
  obtain street as1 where sa: "sa = (street, as1)" by (cases sa)
  from y sa obtain street' as2 where
    "actions_loop (hand_id hand) (street, []) ys = Inr (street', as2)" "actions = as1 @ as2"
    using actions_loop_acc[of "hand_id hand" street as1 ys] by (auto split: sum.splits)
  then show ?thesis using x sa by blast
qed

theorem actions_in_line_order_witness:
  "\<exists>street as1 street' as2.
     actions_loop (Some ''7'') (''preflop'', []) [''Hand #7'', ''Ann: bets 1''] = Inr (street, as1)
   \<and> actions_loop (Some ''7'') (street, []) [''*** FLOP *** [Ah Kd 7s]'', ''Bob: folds''] = Inr (street', as2)
   \<and> snd (parse_hand [''Hand #7'', ''Ann: bets 1'', ''*** FLOP *** [Ah Kd 7s]'', ''Bob: folds''])
       = as1 @ as2
   \<and> as1 \<noteq> [] \<and> as2 \<noteq> []"
proof -
  define H where "H = \<lparr>hand_id = Some ''7'', site = ''pokerok'', game = None,
      limit_type = None, stakes_sb = None, stakes_bb = None,
      currency = None, players = None, table_name = None,
      table_size = None, btn_seat = None, board = ''Ah Kd 7s'',
      pot_total = None, rake = None, winner_json = [], parse_warnings = []\<rparr>"
  define A where "A = [\<lparr>act_hand_id = Some ''7'', act_street = ''preflop'',
        act_player = ''Ann'', act_action = ''bets'', act_amount = Some (Finite 1)\<rparr>,
      \<lparr>act_hand_id = Some ''7'', act_street = ''flop'',
        act_player = ''Bob'', act_action = ''folds'', act_amount = None\<rparr>]"
  have p: "parse_hand [''Hand #7'', ''Ann: bets 1'', ''*** FLOP *** [Ah Kd 7s]'', ''Bob: folds'']
      = (Some H, A)"
    unfolding H_def A_def by code_simp
  have s: "[''Hand #7'', ''Ann: bets 1'', ''*** FLOP *** [Ah Kd 7s]'', ''Bob: folds'']
      = [''Hand #7'', ''Ann: bets 1''] @ [''*** FLOP *** [Ah Kd 7s]'', ''Bob: folds'']"
    by simp
  have a1: "actions_loop (Some ''7'') (''preflop'', []) [''Hand #7'', ''Ann: bets 1'']
      = Inr (''preflop'', [hd A])"
    unfolding A_def by code_simp
  from actions_in_line_order[OF p s] obtain street as1 street' as2 where
    r: "actions_loop (hand_id H) (''preflop'', []) [''Hand #7'', ''Ann: bets 1''] = Inr (street, as1)"
       "actions_loop (hand_id H) (street, []) [''*** FLOP *** [Ah Kd 7s]'', ''Bob: folds''] = Inr (street', as2)"
       "A = as1 @ as2"
    by blast
  have hid: "hand_id H = Some ''7''" by (simp add: H_def)
  from r(1) a1 hid have "as1 = [hd A]" by simp
  then have "as1 \<noteq> []" "as2 \<noteq> []" using r(3) by (auto simp: A_def)
  then show ?thesis using r p hid by auto
qed

section \<open>The board\<close>

lemma captures_turn_river:
  assumes "captures RE_TURN ''turn'' x \<or> captures RE_RIVER ''river'' x"
  shows "x \<noteq> [] \<and> card_count x = 1"
proof -
  from assms obtain n s' where "accepts CARD n x s'"
    by (auto simp: RE_TURN_def RE_RIVER_def CARD_def)
  then show ?thesis by (rule accepts_CARD)
qed

lemma flop_group:
  assumes "re_search RE_FLOP line = Some m"
  shows "group_or_empty m ''flop'' \<noteq> [] \<and> card_count (group_or_empty m ''flop'') = 3"
proof -
  have "always_sets RE_FLOP ''flop''" by (simp add: RE_FLOP_def)
  from re_search_group(2)[OF assms this] obtain x where x: "group m ''flop'' = Some x" by auto
  from re_search_group(1)[OF assms x] captures_flop show ?thesis
    by (simp add: group_or_empty_def x)
qed

lemma turn_group:
  assumes "re_search RE_TURN line = Some m"
  shows "group_or_empty m ''turn'' \<noteq> [] \<and> card_count (group_or_empty m ''turn'') = 1"
proof -
  have "always_sets RE_TURN ''turn''" by (simp add: RE_TURN_def)
  from re_search_group(2)[OF assms this] obtain x where x: "group m ''turn'' = Some x" by auto
  from re_search_group(1)[OF assms x] captures_turn_river show ?thesis
    by (simp add: group_or_empty_def x)
qed

lemma river_group:
  assumes "re_search RE_RIVER line = Some m"
  shows "group_or_empty m ''river'' \<noteq> [] \<and> card_count (group_or_empty m ''river'') = 1"
proof -
  have "always_sets RE_RIVER ''river''" by (simp add: RE_RIVER_def)
  from re_search_group(2)[OF assms this] obtain x where x: "group m ''river'' = Some x" by auto
  from re_search_group(1)[OF assms x] captures_turn_river show ?thesis
    by (simp add: group_or_empty_def x)
qed

lemma board_loop_parts:
  "board_loop (flop, turn, river) lines = (flop', turn', river') \<Longrightarrow>
   part_ok RE_FLOP 3 lines flop flop' \<and> part_ok RE_TURN 1 lines turn turn'
   \<and> part_ok RE_RIVER 1 lines river river'"
proof (induction lines arbitrary: flop turn river)
  case Nil
  then show ?case by (simp add: part_ok_def has_line_def)
next
  case (Cons line lines)
  define f1 where "f1 = (case re_search RE_FLOP line of Some m \<Rightarrow> group_or_empty m ''flop'' | None \<Rightarrow> flop)"
  define t1 where "t1 = (case re_search RE_TURN line of Some m \<Rightarrow> group_or_empty m ''turn'' | None \<Rightarrow> turn)"
  define r1 where "r1 = (case re_search RE_RIVER line of Some m \<Rightarrow> group_or_empty m ''river'' | None \<Rightarrow> river)"
  from Cons.prems have "board_loop (f1, t1, r1) lines = (flop', turn', river')"
    by (simp add: Let_def f1_def t1_def r1_def)
  from Cons.IH[OF this] have ih: "part_ok RE_FLOP 3 lines f1 flop'"
    "part_ok RE_TURN 1 lines t1 turn'" "part_ok RE_RIVER 1 lines r1 river'" by simp_all
  have "part_ok RE_FLOP 3 (line # lines) flop flop'"
    using ih(1) flop_group[of line]
    by (cases "re_search RE_FLOP line") (auto simp: part_ok_def has_line_def f1_def split: if_splits)
  moreover have "part_ok RE_TURN 1 (line # lines) turn turn'"
    using ih(2) turn_group[of line]
    by (cases "re_search RE_TURN line") (auto simp: part_ok_def has_line_def t1_def split: if_splits)
  moreover have "part_ok RE_RIVER 1 (line # lines) river river'"
    using ih(3) river_group[of line]
    by (cases "re_search RE_RIVER line") (auto simp: part_ok_def has_line_def r1_def split: if_splits)
  ultimately show ?case by simp
qed

lemma card_count_Nil: "card_count [] = 0"
  by (simp add: card_count_def)

lemma board_of_count:
  "card_count (board_of lines) =
     (if has_line RE_FLOP lines then 3 else 0) + (if has_line RE_TURN lines then 1 else 0)
     + (if has_line RE_RIVER lines then 1 else 0)"
proof -
  obtain f t r where b: "board_loop ([], [], []) lines = (f, t, r)"
    by (cases "board_loop ([], [], []) lines")
  from board_loop_parts[OF b] have p: "part_ok RE_FLOP 3 lines [] f" "part_ok RE_TURN 1 lines [] t"
    "part_ok RE_RIVER 1 lines [] r" by simp_all
  have "card_count (join ''|'' (filter (\<lambda>p. p \<noteq> []) [f, t, r]))
      = card_count f + card_count t + card_count r"
    by (cases "f = []"; cases "t = []"; cases "r = []") (simp_all add: card_count_bar card_count_Nil)
  moreover have "card_count f = (if has_line RE_FLOP lines then 3 else 0)"
    "card_count t = (if has_line RE_TURN lines then 1 else 0)"
    "card_count r = (if has_line RE_RIVER lines then 1 else 0)"
    using p by (auto simp: part_ok_def card_count_Nil split: if_splits)
  ultimately show ?thesis by (simp add: board_of_def b)
qed

text \<open>
  C4, as the code has it.  Flop, turn and river are read independently of one another, so
  for every parsed hand the board holds three cards if some line matches the flop
  pattern, one more if some line matches the turn pattern and one more if some line
  matches the river pattern.  It never holds more than five cards, and it holds 0, 3, 4
  or 5 cards whenever the block has a flop line or has neither a turn nor a river line.
\<close>

theorem board_card_count:
  assumes "parse_hand lines = (Some hand, actions)"
  shows "card_count (board hand) =
           (if has_line RE_FLOP lines then 3 else 0) + (if has_line RE_TURN lines then 1 else 0)
           + (if has_line RE_RIVER lines then 1 else 0)
       \<and> card_count (board hand) \<le> 5
       \<and> (has_line RE_FLOP lines \<or> \<not> (has_line RE_TURN lines \<or> has_line RE_RIVER lines) \<longrightarrow>
            card_count (board hand) = 0 \<or> card_count (board hand) = 3
            \<or> card_count (board hand) = 4 \<or> card_count (board hand) = 5)"
proof -
  from assms have "parse_body lines = Inr (hand, actions)" by (simp add: parse_hand_Some)
  then have "board hand = board_of lines" by (rule parse_body_Inr(4))
  then show ?thesis by (simp add: board_of_count)
qed

theorem board_card_count_witness:
  "map_option board (fst (parse_hand [''Hand #1'', ''*** FLOP *** [Ah Kd 7s]'',
       ''*** TURN *** [Ah Kd 7s] [2c]''])) = Some ''Ah Kd 7s|2c''
   \<and> card_count ''Ah Kd 7s|2c'' = 4"
proof -
  define L where "L = [''Hand #1'', ''*** FLOP *** [Ah Kd 7s]'', ''*** TURN *** [Ah Kd 7s] [2c]'']"
  define H where "H = \<lparr>hand_id = Some ''1'', site = ''pokerok'', game = None,
      limit_type = None, stakes_sb = None, stakes_bb = None,
      currency = None, players = None, table_name = None,
      table_size = None, btn_seat = None, board = ''Ah Kd 7s|2c'',
      pot_total = None, rake = None, winner_json = [], parse_warnings = []\<rparr>"
  have p: "parse_hand L = (Some H, [])" unfolding L_def H_def by code_simp
  have l: "has_line RE_FLOP L" "has_line RE_TURN L" "\<not> has_line RE_RIVER L"
    unfolding L_def by code_simp+
  from board_card_count[OF p] l have "card_count (board H) = 4" by simp
  moreover have "board H = ''Ah Kd 7s|2c''" by (simp add: H_def)
  ultimately show ?thesis using p unfolding L_def by simp
qed

text \<open>
  C4 as stated fails: a block with a turn line and no flop line parses to a hand whose
  board has one card, and with a river line as well to a board of two cards.
\<close>

theorem board_card_count_counterexample:
  "map_option board (fst (parse_hand [''Hand #1'', ''*** TURN *** [7s]''])) = Some ''7s''
   \<and> card_count ''7s'' = 1
   \<and> map_option board (fst (parse_hand [''Hand #1'', ''*** TURN *** [7s]'', ''*** RIVER *** [7s] [2c]'']))
       = Some ''7s|2c''
   \<and> card_count ''7s|2c'' = 2"
  by code_simp

section \<open>The blocks of the segmenter\<close>

lemma re_match_accepts:
  "re_match r s \<noteq> None \<longleftrightarrow> (\<exists>w s'. s = w @ s' \<and> accepts r 0 w s')"
proof
  assume "re_match r s \<noteq> None"
  then obtain n' s' g' where "(n', s', g') \<in> set (rx_match r (0, s, []))"
    by (auto simp: re_match_def split: list.splits)
  then have "\<exists>g'. (n', s', g') \<in> set (rx_match r (0, s, []))" by blast
  then show "\<exists>w s'. s = w @ s' \<and> accepts r 0 w s'" unfolding rx_match_iff by blast
next
  assume "\<exists>w s'. s = w @ s' \<and> accepts r 0 w s'"
  then obtain w s' where "s = w @ s' \<and> 0 + length w = 0 + length w \<and> accepts r 0 w s'" by auto
  then have "\<exists>g'. (0 + length w, s', g') \<in> set (rx_match r (0, s, []))"
    unfolding rx_match_iff by blast
  then have "rx_match r (0, s, []) \<noteq> []" by auto
  then show "re_match r s \<noteq> None"
    by (auto simp: re_match_def split: list.splits)
qed

lemma accepts_SeqI:
  "accepts a n u (v @ s') \<Longrightarrow> accepts b (n + length u) v s' \<Longrightarrow> accepts (Seq a b) n (u @ v) s'"
  by auto

lemma accepts_SeqE:
  assumes "accepts (Seq a b) n w s'"
  obtains u v where "w = u @ v" "accepts a n u (v @ s')" "accepts b (n + length u) v s'"
  using assms by auto

lemma rstrip_nl_keep:
  assumes "t \<noteq> []" "last t \<noteq> newline" "s' = [] \<or> s' = [newline]"
  shows "rstrip_nl (p @ t @ s') = p @ t"
proof -
  obtain y ys where r: "rev t = y # ys" using assms(1) by (cases "rev t") auto
  then have "y = last t" by (metis last_rev list.sel(1) rev_rev_ident hd_rev)
  then have "y \<noteq> newline" using assms(2) by simp
  then have "dropWhile (\<lambda>c. c = newline) (rev s' @ rev t @ rev p) = rev t @ rev p"
    using assms(3) r by auto
  then show ?thesis by (simp add: rstrip_nl_def)
qed

lemma word_not_newline: "word_or_hyphen c \<Longrightarrow> c \<noteq> newline"
  by (auto simp: word_or_hyphen_def is_word_def is_digit_def in_range_iff newline_def)

lemma header_acceptsD:
  "accepts RE_HAND_HEADER 0 w s' \<Longrightarrow>
   \<exists>a h b x c i t. w = a @ h @ b @ x @ c @ i @ t \<and> list_all is_space a
     \<and> same_letters ''Hand'' h \<and> list_all is_space b \<and> same_letters ''#'' x
     \<and> list_all is_space c \<and> i \<noteq> [] \<and> list_all word_or_hyphen i \<and> list_all not_newline t
     \<and> (s' = [] \<or> s' = [newline])"
  unfolding RE_HAND_HEADER_def seqs.simps
  apply (elim accepts_SeqE)
  apply clarsimp
  apply (intro exI conjI)
           apply (rule refl)
          apply assumption+
  done


lemma header_acceptsI:
  assumes "list_all is_space a" "same_letters ''Hand'' h" "list_all is_space b"
    "same_letters ''#'' x" "list_all is_space c" "i \<noteq> []" "list_all word_or_hyphen i"
    "list_all not_newline t"
  shows "accepts RE_HAND_HEADER 0 ([] @ a @ h @ b @ x @ c @ i @ t @ []) []"
  unfolding RE_HAND_HEADER_def seqs.simps
  using assms by (intro accepts_SeqI) simp_all

lemma header_rstrip:
  assumes "re_match RE_HAND_HEADER line \<noteq> None"
  shows "re_match RE_HAND_HEADER (rstrip_nl line) \<noteq> None"
proof -
  from assms obtain w s' where l: "line = w @ s'" and acc: "accepts RE_HAND_HEADER 0 w s'"
    unfolding re_match_accepts by blast
  from header_acceptsD[OF acc] obtain a h b x c i t where
    w: "w = a @ h @ b @ x @ c @ i @ t"
    and p: "list_all is_space a" "same_letters ''Hand'' h" "list_all is_space b"
      "same_letters ''#'' x" "list_all is_space c" "i \<noteq> []" "list_all word_or_hyphen i"
      "list_all not_newline t"
    and e: "s' = [] \<or> s' = [newline]"
    by blast
  have "last (i @ t) \<noteq> newline"
  proof (cases "t = []")
    case True
    then have "last (i @ t) \<in> set i" using p(6) by simp
    then show ?thesis using p(7) word_not_newline by (auto simp: list_all_iff)
  next
    case False
    then have "last (i @ t) \<in> set t" by simp
    then show ?thesis using p(8) by (auto simp: list_all_iff not_newline_def)
  qed
  then have "rstrip_nl ((a @ h @ b @ x @ c) @ (i @ t) @ s') = (a @ h @ b @ x @ c) @ (i @ t)"
    using p(6) e by (intro rstrip_nl_keep) auto
  then have r: "rstrip_nl line = ([] @ a @ h @ b @ x @ c @ i @ t @ []) @ []"
    using l w by simp
  from header_acceptsI[OF p]
  have "\<exists>w s'. rstrip_nl line = w @ s' \<and> accepts RE_HAND_HEADER 0 w s'"
    using r by blast
  then show ?thesis unfolding re_match_accepts .
qed

lemma split_loop_concat:
  "concat (split_loop current lines) = current @ map rstrip_nl lines"
  by (induction lines arbitrary: current) auto

lemma split_loop_nonempty_blocks: "[] \<notin> set (split_loop current lines)"
  by (induction lines arbitrary: current) auto

lemma split_loop_first:
  "current \<noteq> [] \<Longrightarrow> split_loop current lines \<noteq> []
     \<and> hd (hd (split_loop current lines)) = hd current"
  by (induction lines arbitrary: current) (auto simp: hd_append)

lemma split_loop_headers:
  "\<forall>b\<in>set (tl (split_loop current lines)). re_match RE_HAND_HEADER (hd b) \<noteq> None"
proof (induction lines arbitrary: current)
  case Nil
  show ?case by simp
next
  case (Cons line lines)
  show ?case
  proof (cases "re_match RE_HAND_HEADER line \<noteq> None \<and> current \<noteq> []")
    case True
    then have h: "re_match RE_HAND_HEADER (rstrip_nl line) \<noteq> None" using header_rstrip by blast
    have f: "split_loop [rstrip_nl line] lines \<noteq> []"
      "hd (hd (split_loop [rstrip_nl line] lines)) = rstrip_nl line"
      using split_loop_first[of "[rstrip_nl line]" lines] by simp_all
    have "\<forall>b\<in>set (split_loop [rstrip_nl line] lines). re_match RE_HAND_HEADER (hd b) \<noteq> None"
    proof
      fix b assume b: "b \<in> set (split_loop [rstrip_nl line] lines)"
      obtain x xs where x: "split_loop [rstrip_nl line] lines = x # xs"
        using f(1) by (cases "split_loop [rstrip_nl line] lines") auto
      from b x consider "b = x" | "b \<in> set (tl (split_loop [rstrip_nl line] lines))" by auto
      then show "re_match RE_HAND_HEADER (hd b) \<noteq> None"
      proof cases
        case 1
        then show ?thesis using f(2) x h by simp
      next
        case 2
        then show ?thesis using Cons.IH[of "[rstrip_nl line]"] by blast
      qed
    qed
    then show ?thesis using True by simp
  next
    case False
    then have "split_loop current (line # lines) = split_loop (current @ [rstrip_nl line]) lines"
      by auto
    then show ?thesis using Cons.IH[of "current @ [rstrip_nl line]"] by simp
  qed
qed

lemma split_loop_body:
  "\<forall>l\<in>set body. re_match RE_HAND_HEADER l = None \<Longrightarrow>
   split_loop current (body @ rest) = split_loop (current @ map rstrip_nl body) rest"
  by (induction body arbitrary: current) auto

lemma split_loop_cut:
  assumes "current \<noteq> []" "rest = [] \<or> re_match RE_HAND_HEADER (hd rest) \<noteq> None"
  shows "split_loop current rest = current # split_loop [] rest"
proof (cases rest)
  case Nil
  then show ?thesis using assms(1) by simp
next
  case (Cons h r)
  then have "re_match RE_HAND_HEADER h \<noteq> None" using assms(2) by simp
  then show ?thesis using Cons assms(1) by simp
qed

lemma split_into_hands_cut:
  assumes "blk \<noteq> []" "\<forall>l\<in>set (tl blk). re_match RE_HAND_HEADER l = None"
    "rest = [] \<or> re_match RE_HAND_HEADER (hd rest) \<noteq> None"
  shows "split_into_hands (blk @ rest) = map rstrip_nl blk # split_into_hands rest"
proof -
  obtain b0 body where b: "blk = b0 # body" using assms(1) by (cases blk) auto
  have "split_loop [] (b0 # body @ rest) = split_loop [rstrip_nl b0] (body @ rest)"
    by simp
  also have "\<dots> = split_loop ([rstrip_nl b0] @ map rstrip_nl body) rest"
    using assms(2) b by (intro split_loop_body) simp
  also have "\<dots> = ([rstrip_nl b0] @ map rstrip_nl body) # split_loop [] rest"
    using assms(3) by (intro split_loop_cut) simp_all
  finally show ?thesis by (simp add: split_into_hands_def b)
qed

text \<open>
  C6, as the code has it.  The segmenter drops no line: the blocks, one after the other,
  are the input lines without their trailing newlines.  No block is empty, every block
  after the first begins with a line matching the header pattern, and the first block
  begins with the first input line, whether that is a header or not.  The blocks are cut
  exactly in front of the header lines: a non-empty run of lines of which none but
  possibly the first matches the header, followed by the end of the input or by a header
  line, is yielded as one block, and the segmenter goes on with what follows.  So the
  lines before the first header are yielded as a block of their own.
\<close>

theorem split_into_hands_blocks:
  "concat (split_into_hands lines) = map rstrip_nl lines
   \<and> [] \<notin> set (split_into_hands lines)
   \<and> (\<forall>b\<in>set (tl (split_into_hands lines)). re_match RE_HAND_HEADER (hd b) \<noteq> None)
   \<and> (lines \<noteq> [] \<longrightarrow> hd (hd (split_into_hands lines)) = rstrip_nl (hd lines))
   \<and> split_into_hands [] = []
   \<and> (blk \<noteq> [] \<and> (\<forall>l\<in>set (tl blk). re_match RE_HAND_HEADER l = None)
        \<and> (rest = [] \<or> re_match RE_HAND_HEADER (hd rest) \<noteq> None) \<longrightarrow>
       split_into_hands (blk @ rest) = map rstrip_nl blk # split_into_hands rest)"
proof (intro conjI impI)
  show c: "concat (split_into_hands lines) = map rstrip_nl lines"
    by (simp add: split_into_hands_def split_loop_concat)
  show n: "[] \<notin> set (split_into_hands lines)"
    by (simp add: split_into_hands_def split_loop_nonempty_blocks)
  show "\<forall>b\<in>set (tl (split_into_hands lines)). re_match RE_HAND_HEADER (hd b) \<noteq> None"
    unfolding split_into_hands_def by (rule split_loop_headers)
  show "split_into_hands [] = []" by (simp add: split_into_hands_def)
  { assume l: "lines \<noteq> []"
    then obtain x xs where x: "split_into_hands lines = x # xs"
      using c by (cases "split_into_hands lines") auto
    then have "x \<noteq> []" using n by auto
    then have "hd (concat (split_into_hands lines)) = hd x" using x by simp
    then show "hd (hd (split_into_hands lines)) = rstrip_nl (hd lines)"
      using c x l by (simp add: hd_map) }
  { assume "blk \<noteq> [] \<and> (\<forall>l\<in>set (tl blk). re_match RE_HAND_HEADER l = None)
        \<and> (rest = [] \<or> re_match RE_HAND_HEADER (hd rest) \<noteq> None)"
    then show "split_into_hands (blk @ rest) = map rstrip_nl blk # split_into_hands rest"
      using split_into_hands_cut by blast }
qed

theorem split_into_hands_blocks_witness:
  "split_into_hands ([''table info'' @ [newline], ''stray line'' @ [newline]]
       @ [''Hand #1'' @ [newline], ''Seat 1: Hero (2.00)'' @ [newline], ''hand # 2''])
     = [''table info'', ''stray line'']
         # split_into_hands [''Hand #1'' @ [newline], ''Seat 1: Hero (2.00)'' @ [newline], ''hand # 2'']
   \<and> split_into_hands [''Hand #1'' @ [newline], ''Seat 1: Hero (2.00)'' @ [newline], ''hand # 2'']
     = [[''Hand #1'', ''Seat 1: Hero (2.00)''], [''hand # 2'']]
   \<and> re_match RE_HAND_HEADER ''hand # 2'' \<noteq> None"
proof -
  define blk where "blk = [''table info'' @ [newline], ''stray line'' @ [newline]]"
  define rest where "rest = [''Hand #1'' @ [newline], ''Seat 1: Hero (2.00)'' @ [newline], ''hand # 2'']"
  have h: "blk \<noteq> [] \<and> (\<forall>l\<in>set (tl blk). re_match RE_HAND_HEADER l = None)
        \<and> (rest = [] \<or> re_match RE_HAND_HEADER (hd rest) \<noteq> None)"
    unfolding blk_def rest_def by code_simp
  have s: "split_into_hands rest = [[''Hand #1'', ''Seat 1: Hero (2.00)''], [''hand # 2'']]"
    unfolding rest_def by code_simp
  from split_into_hands_blocks[of rest blk rest] h
  have a: "split_into_hands (blk @ rest) = map rstrip_nl blk # split_into_hands rest"
    and b: "\<forall>b\<in>set (tl (split_into_hands rest)). re_match RE_HAND_HEADER (hd b) \<noteq> None"
    by blast+
  have m: "map rstrip_nl blk = [''table info'', ''stray line'']"
    unfolding blk_def by code_simp
  from b have "re_match RE_HAND_HEADER ''hand # 2'' \<noteq> None" unfolding s by simp
  then show ?thesis using a s m unfolding blk_def rest_def by simp
qed

text \<open>
  C6 as stated fails: the line before the first header is yielded as a block, and that
  block does not begin with a header line.
\<close>

theorem split_into_hands_counterexample:
  "split_into_hands [''table info'', ''Hand #1'', ''Seat 1: Hero (2.00)'']
     = [[''table info''], [''Hand #1'', ''Seat 1: Hero (2.00)'']]
   \<and> re_match RE_HAND_HEADER ''table info'' = None"
  by code_simp

end
